theory Spec2Isabelle
  imports Complex_Main "HOL-Library.Multiset" "HOL-Library.While_Combinator" "HOL-Library.Log_Nat"
begin

section \<open>Data model (d2gridrouter/types.go)\<close>

text \<open>
  Coordinates, sizes and weights are \<^verbatim>\<open>float64\<close> in the source. They are modelled as
  exact reals: comparisons and copies are what the source does, arithmetic is exact.
  Slice indices (\<^verbatim>\<open>int\<close> in the source, never negative where they are produced) are
  natural numbers; an index out of range is a panic of the source and the value
  \<open>None\<close> of the model.
\<close>

record Point =
  X :: real
  Y :: real

datatype Direction = DirTop | DirRight | DirBottom | DirLeft

datatype Orientation = Horizontal | Vertical

record Rect =
  rectX :: real
  rectY :: real
  rectW :: real
  rectH :: real

definition Left :: "Rect \<Rightarrow> real" where
  "Left r = rectX r"

definition Right :: "Rect \<Rightarrow> real" where
  "Right r = rectX r + rectW r"

definition Top :: "Rect \<Rightarrow> real" where
  "Top r = rectY r"

definition Bottom :: "Rect \<Rightarrow> real" where
  "Bottom r = rectY r + rectH r"

definition CenterX :: "Rect \<Rightarrow> real" where
  "CenterX r = rectX r + rectW r / 2"

definition CenterY :: "Rect \<Rightarrow> real" where
  "CenterY r = rectY r + rectH r / 2"

record Port =
  NodeIdx :: nat
  EdgeIdx :: nat
  Side :: Direction
  Pos :: Point
  IsSrc :: bool

record PortAssignment =
  SrcPorts :: "Port list"
  DstPorts :: "Port list"

text \<open>
  \<^verbatim>\<open>sort.Slice\<close> is Go's standard library, not code of this repository. Functions
  that call it take the sort as their first argument \<open>srt\<close>; theorems say what they
  assume of it. \<open>insertSorted\<close> and \<open>insertionSort\<close> are one such sort (a plain
  insertion sort that keeps the input order of ties), used where a theorem is evaluated at
  a concrete input.
\<close>

type_synonym 'a sorter = "('a \<Rightarrow> 'a \<Rightarrow> bool) \<Rightarrow> 'a list \<Rightarrow> 'a list"

fun insertSorted :: "('a \<Rightarrow> 'a \<Rightarrow> bool) \<Rightarrow> 'a \<Rightarrow> 'a list \<Rightarrow> 'a list" where
  "insertSorted lt x [] = [x]"
| "insertSorted lt x (y # ys) =
     (if lt x y then x # y # ys else y # insertSorted lt x ys)"

definition insertionSort :: "'a sorter" where
  "insertionSort lt xs = foldl (\<lambda>acc x. insertSorted lt x acc) [] xs"

section \<open>Port alignment of the corridor router (d2gridrouter/portassign.go)\<close>

text \<open>
  The body of the loop of \<^verbatim>\<open>alignNearlyAlignedPorts\<close> for one edge, in its two
  consecutive parts: \<open>alignVertical\<close> is the \<^verbatim>\<open>if isVertical\<close> block,
  \<open>alignHorizontal\<close> the \<^verbatim>\<open>if isHorizontal\<close> block. Each receives the two
  boxes and the two ports and returns the two ports as the block leaves them.
\<close>

definition alignVertical :: "Rect \<Rightarrow> Rect \<Rightarrow> Port \<Rightarrow> Port \<Rightarrow> Port \<times> Port" where
  "alignVertical srcBox dstBox src dst =
    (if (Side src = DirBottom \<and> Side dst = DirTop) \<or>
        (Side src = DirTop \<and> Side dst = DirBottom)
     then
       (let overlapLeft = max (Left srcBox) (Left dstBox);
            overlapRight = min (Right srcBox) (Right dstBox)
        in if overlapRight > overlapLeft then
             (let targetX = (overlapLeft + overlapRight) / 2;
                  srcMinX = Left srcBox + rectW srcBox * (1 / 10);
                  srcMaxX = Left srcBox + rectW srcBox * (9 / 10);
                  dstMinX = Left dstBox + rectW dstBox * (1 / 10);
                  dstMaxX = Left dstBox + rectW dstBox * (9 / 10)
              in if targetX \<ge> srcMinX \<and> targetX \<le> srcMaxX \<and>
                    targetX \<ge> dstMinX \<and> targetX \<le> dstMaxX
                 then (src\<lparr>Pos := (Pos src)\<lparr>X := targetX\<rparr>\<rparr>,
                       dst\<lparr>Pos := (Pos dst)\<lparr>X := targetX\<rparr>\<rparr>)
                 else (src, dst))
           else (src, dst))
     else (src, dst))"

definition alignHorizontal :: "Rect \<Rightarrow> Rect \<Rightarrow> Port \<Rightarrow> Port \<Rightarrow> Port \<times> Port" where
  "alignHorizontal srcBox dstBox src dst =
    (if (Side src = DirRight \<and> Side dst = DirLeft) \<or>
        (Side src = DirLeft \<and> Side dst = DirRight)
     then
       (let overlapTop = max (Top srcBox) (Top dstBox);
            overlapBottom = min (Bottom srcBox) (Bottom dstBox)
        in if overlapBottom > overlapTop then
             (let targetY = (overlapTop + overlapBottom) / 2;
                  srcMinY = Top srcBox + rectH srcBox * (1 / 10);
                  srcMaxY = Top srcBox + rectH srcBox * (9 / 10);
                  dstMinY = Top dstBox + rectH dstBox * (1 / 10);
                  dstMaxY = Top dstBox + rectH dstBox * (9 / 10)
              in if targetY \<ge> srcMinY \<and> targetY \<le> srcMaxY \<and>
                    targetY \<ge> dstMinY \<and> targetY \<le> dstMaxY
                 then (src\<lparr>Pos := (Pos src)\<lparr>Y := targetY\<rparr>\<rparr>,
                       dst\<lparr>Pos := (Pos dst)\<lparr>Y := targetY\<rparr>\<rparr>)
                 else (src, dst))
           else (src, dst))
     else (src, dst))"

definition alignPair :: "Rect \<Rightarrow> Rect \<Rightarrow> Port \<Rightarrow> Port \<Rightarrow> Port \<times> Port" where
  "alignPair srcBox dstBox src dst =
    (case alignVertical srcBox dstBox src dst of
       (src1, dst1) \<Rightarrow> alignHorizontal srcBox dstBox src1 dst1)"

text \<open>
  One iteration on the whole assignment: it reads \<^verbatim>\<open>pa.SrcPorts[i]\<close>,
  \<^verbatim>\<open>pa.DstPorts[i]\<close> and the two boxes (each read panics out of range) and
  writes the two ports back.
\<close>

definition alignStep :: "Rect list \<Rightarrow> nat \<Rightarrow> PortAssignment \<Rightarrow> PortAssignment option" where
  "alignStep boxes i pa =
    (if i < length (SrcPorts pa) \<and> i < length (DstPorts pa)
        \<and> NodeIdx (SrcPorts pa ! i) < length boxes
        \<and> NodeIdx (DstPorts pa ! i) < length boxes
     then (let src = SrcPorts pa ! i;
               dst = DstPorts pa ! i;
               (src', dst') = alignPair (boxes ! NodeIdx src) (boxes ! NodeIdx dst) src dst
           in Some (pa\<lparr>SrcPorts := (SrcPorts pa)[i := src'],
                        DstPorts := (DstPorts pa)[i := dst']\<rparr>))
     else None)"

definition alignNearlyAlignedPorts :: "Rect list \<Rightarrow> PortAssignment \<Rightarrow> PortAssignment option" where
  "alignNearlyAlignedPorts boxes pa =
    fold (\<lambda>i r. Option.bind r (alignStep boxes i)) [0..<length (SrcPorts pa)] (Some pa)"

text \<open>
  The spec's wording for the same step: the midpoint of the overlap, clamped to the
  inner 10%--90% of a box.
\<close>

definition spec_clampedMidX :: "Rect \<Rightarrow> Rect \<Rightarrow> Rect \<Rightarrow> real" where
  "spec_clampedMidX box srcBox dstBox =
    (let mid = (max (Left srcBox) (Left dstBox) + min (Right srcBox) (Right dstBox)) / 2
     in max (Left box + rectW box * (1 / 10)) (min (Left box + rectW box * (9 / 10)) mid))"

text \<open>Vocabulary of the statements about port alignment.\<close>

definition overlapMidX :: "Rect \<Rightarrow> Rect \<Rightarrow> real" where
  "overlapMidX srcBox dstBox =
     (max (Left srcBox) (Left dstBox) + min (Right srcBox) (Right dstBox)) / 2"

definition overlapMidY :: "Rect \<Rightarrow> Rect \<Rightarrow> real" where
  "overlapMidY srcBox dstBox =
     (max (Top srcBox) (Top dstBox) + min (Bottom srcBox) (Bottom dstBox)) / 2"

definition innerX :: "Rect \<Rightarrow> real \<Rightarrow> bool" where
  "innerX box x =
     (Left box + rectW box * (1 / 10) \<le> x \<and> x \<le> Left box + rectW box * (9 / 10))"

definition innerY :: "Rect \<Rightarrow> real \<Rightarrow> bool" where
  "innerY box y =
     (Top box + rectH box * (1 / 10) \<le> y \<and> y \<le> Top box + rectH box * (9 / 10))"

text \<open>Concrete inputs: two boxes in one column, and two boxes in one row.\<close>

definition ce8_boxes :: "Rect list" where
  "ce8_boxes = [\<lparr>rectX = 0, rectY = 0, rectW = 100, rectH = 50\<rparr>,
                \<lparr>rectX = 95, rectY = 400, rectW = 100, rectH = 50\<rparr>]"

definition ce8_ports :: PortAssignment where
  "ce8_ports = \<lparr>SrcPorts = [\<lparr>NodeIdx = 0, EdgeIdx = 0, Side = DirBottom,
                               Pos = \<lparr>X = 50, Y = 50\<rparr>, IsSrc = True\<rparr>],
                 DstPorts = [\<lparr>NodeIdx = 1, EdgeIdx = 0, Side = DirTop,
                               Pos = \<lparr>X = 145, Y = 400\<rparr>, IsSrc = False\<rparr>]\<rparr>"

definition w8_boxesV :: "Rect list" where
  "w8_boxesV = [\<lparr>rectX = 0, rectY = 0, rectW = 100, rectH = 50\<rparr>,
                \<lparr>rectX = 20, rectY = 400, rectW = 100, rectH = 50\<rparr>]"

definition w8_portsV :: PortAssignment where
  "w8_portsV = \<lparr>SrcPorts = [\<lparr>NodeIdx = 0, EdgeIdx = 0, Side = DirBottom,
                               Pos = \<lparr>X = 50, Y = 50\<rparr>, IsSrc = True\<rparr>],
                 DstPorts = [\<lparr>NodeIdx = 1, EdgeIdx = 0, Side = DirTop,
                               Pos = \<lparr>X = 70, Y = 400\<rparr>, IsSrc = False\<rparr>]\<rparr>"

definition w8_boxesH :: "Rect list" where
  "w8_boxesH = [\<lparr>rectX = 0, rectY = 0, rectW = 50, rectH = 100\<rparr>,
                \<lparr>rectX = 400, rectY = 20, rectW = 50, rectH = 100\<rparr>]"

definition w8_portsH :: PortAssignment where
  "w8_portsH = \<lparr>SrcPorts = [\<lparr>NodeIdx = 0, EdgeIdx = 0, Side = DirRight,
                               Pos = \<lparr>X = 50, Y = 50\<rparr>, IsSrc = True\<rparr>],
                 DstPorts = [\<lparr>NodeIdx = 1, EdgeIdx = 0, Side = DirLeft,
                               Pos = \<lparr>X = 400, Y = 70\<rparr>, IsSrc = False\<rparr>]\<rparr>"

section \<open>Port spreading of the standalone router (d2wueortho/gridroute.go)\<close>

text \<open>
  Objects and edges are reached through pointers in the source. An object reference is
  a natural number and \<open>heap\<close> maps references to objects; an edge holds the
  references of its endpoints. Only the fields the modelled functions read are kept.
\<close>

type_synonym ObjRef = nat

record Object =
  TopLeft :: Point
  Width :: real
  Height :: real
  Parent :: "ObjRef option"
  ChildrenArray :: "ObjRef list"

record Edge =
  Src :: ObjRef
  Dst :: ObjRef
  LabelValue :: string
  LabelPosition :: "string option"
  Route :: "Point list"

text \<open>
  Modelled from the spec: \<^verbatim>\<open>Center\<close> is a method of d2's \<^verbatim>\<open>lib/geo\<close> box,
  which is not under src; it is the centre of the box.
\<close>

definition Center :: "Object \<Rightarrow> Point" where
  "Center ob = \<lparr>X = X (TopLeft ob) + Width ob / 2, Y = Y (TopLeft ob) + Height ob / 2\<rparr>"

datatype face = faceRight | faceLeft | faceTop | faceBottom

record portInfo =
  edge :: Edge
  obj :: ObjRef
  face :: face
  pos :: "Point option"
  isSource :: bool

definition neighborObj :: "portInfo \<Rightarrow> ObjRef" where
  "neighborObj p = (if isSource p then Dst (edge p) else Src (edge p))"

definition facePoint :: "Object \<Rightarrow> face \<Rightarrow> real \<Rightarrow> real \<Rightarrow> real \<Rightarrow> nat \<Rightarrow> Point" where
  "facePoint ob f t cornerGap minClearance numPorts =
    (let left = X (TopLeft ob);
         top = Y (TopLeft ob);
         right = left + Width ob;
         bottom = top + Height ob
     in case f of
          faceTop \<Rightarrow>
            (let usable = Width ob - 2 * cornerGap;
                 (usable, cornerGap) = (if usable < 0 then (Width ob, 0) else (usable, cornerGap));
                 x = left + cornerGap + usable * t
             in \<lparr>X = x, Y = top\<rparr>)
        | faceBottom \<Rightarrow>
            (let usable = Width ob - 2 * cornerGap;
                 (usable, cornerGap) = (if usable < 0 then (Width ob, 0) else (usable, cornerGap));
                 x = left + cornerGap + usable * t
             in \<lparr>X = x, Y = bottom\<rparr>)
        | faceLeft \<Rightarrow>
            (let usable = Height ob - 2 * cornerGap;
                 (usable, cornerGap) = (if usable < 0 then (Height ob, 0) else (usable, cornerGap));
                 y = top + cornerGap + usable * t
             in \<lparr>X = left, Y = y\<rparr>)
        | faceRight \<Rightarrow>
            (let usable = Height ob - 2 * cornerGap;
                 (usable, cornerGap) = (if usable < 0 then (Height ob, 0) else (usable, cornerGap));
                 y = top + cornerGap + usable * t
             in \<lparr>X = right, Y = y\<rparr>))"

text \<open>The comparison function handed to \<^verbatim>\<open>sort.Slice\<close> in \<^verbatim>\<open>sortAndSpreadPorts\<close>.\<close>

definition portLess :: "(ObjRef \<Rightarrow> Object) \<Rightarrow> face \<Rightarrow> portInfo \<Rightarrow> portInfo \<Rightarrow> bool" where
  "portLess heap f p q =
    (let ni = heap (neighborObj p); nj = heap (neighborObj q)
     in case f of
          faceTop \<Rightarrow> X (Center ni) < X (Center nj)
        | faceBottom \<Rightarrow> X (Center ni) < X (Center nj)
        | faceLeft \<Rightarrow> Y (Center ni) < Y (Center nj)
        | faceRight \<Rightarrow> Y (Center ni) < Y (Center nj))"

text \<open>
  \<^verbatim>\<open>sortAndSpreadPorts\<close> sorts the slice in place and sets \<^verbatim>\<open>pos\<close> of every port;
  the model returns the slice as the call leaves it.
\<close>

definition sortAndSpreadPorts ::
  "portInfo sorter \<Rightarrow> (ObjRef \<Rightarrow> Object) \<Rightarrow> portInfo list \<Rightarrow> face \<Rightarrow> portInfo list" where
  "sortAndSpreadPorts srt heap ports f =
    (if length ports = 0 then ports
     else
       (let sorted = srt (portLess heap f) ports;
            ob = heap (obj (sorted ! 0));
            n = length ports;
            minClearance = 8;
            cornerGap = 12
        in map (\<lambda>(i, p).
                  (let t = (real i + 1) / (real n + 1)
                   in p\<lparr>pos := Some (facePoint ob f t cornerGap minClearance n)\<rparr>))
               (enumerate 0 sorted)))"

text \<open>
  Vocabulary of the statements about port spreading: the offset of port \<open>i\<close> of \<open>n\<close>
  from the start of a face of length \<open>len\<close>.
\<close>

definition spreadAlong :: "real \<Rightarrow> nat \<Rightarrow> nat \<Rightarrow> real" where
  "spreadAlong len i n =
     (let t = (real i + 1) / (real n + 1)
      in if len < 24 then len * t else 12 + (len - 24) * t)"

text \<open>
  A concrete input: a hub of width 40 (object 0) whose top face receives three edges,
  from three satellites above it.
\<close>

definition ce7_heap :: "ObjRef \<Rightarrow> Object" where
  "ce7_heap r =
     [\<lparr>TopLeft = \<lparr>X = 40, Y = 200\<rparr>, Width = 40, Height = 30, Parent = None, ChildrenArray = []\<rparr>,
      \<lparr>TopLeft = \<lparr>X = 0, Y = 0\<rparr>, Width = 20, Height = 30, Parent = None, ChildrenArray = []\<rparr>,
      \<lparr>TopLeft = \<lparr>X = 50, Y = 0\<rparr>, Width = 20, Height = 30, Parent = None, ChildrenArray = []\<rparr>,
      \<lparr>TopLeft = \<lparr>X = 100, Y = 0\<rparr>, Width = 20, Height = 30, Parent = None, ChildrenArray = []\<rparr>]
     ! r"

definition ce7_port :: "ObjRef \<Rightarrow> portInfo" where
  "ce7_port r =
     \<lparr>edge = \<lparr>Src = r, Dst = 0, LabelValue = [], LabelPosition = None, Route = []\<rparr>,
      obj = 0, face = faceTop, pos = None, isSource = False\<rparr>"

definition ce7_ports :: "portInfo list" where
  "ce7_ports = [ce7_port 1, ce7_port 2, ce7_port 3]"

section \<open>Route simplification (d2gridrouter/router.go)\<close>

text \<open>
  A route is a slice of pointers to points in the source; \<^verbatim>\<open>simplifyRoute\<close> writes into
  the points it keeps. The model is a function from the list of points to the list of
  points returned, each with the coordinates it has on return. It agrees with the source
  whenever the pointers of the input slice are pairwise distinct, as they are for the
  routes \<^verbatim>\<open>routeAllEdges\<close> builds.
\<close>

definition nearEq :: "real \<Rightarrow> real \<Rightarrow> bool" where
  "nearEq a b = (\<bar>a - b\<bar> < 1 / 2)"

text \<open>
  First pass. \<open>dedupFrom prev ps\<close> is the rest of the loop when \<open>prev\<close> is the last
  element of \<^verbatim>\<open>deduped\<close> and \<open>ps\<close> are the points not yet visited; it returns what
  the loop still appends.
\<close>

fun dedupFrom :: "Point \<Rightarrow> Point list \<Rightarrow> Point list" where
  "dedupFrom prev [] = []"
| "dedupFrom prev (p # ps) =
     (if \<not> nearEq (X p) (X prev) \<or> \<not> nearEq (Y p) (Y prev)
      then p # dedupFrom p ps
      else dedupFrom prev ps)"

text \<open>The two snaps of a kept bend, and the snap of the last point.\<close>

definition snapCurr :: "Point \<Rightarrow> Point \<Rightarrow> Point \<Rightarrow> Point" where
  "snapCurr prev cur nxt =
    (let cur1 = (if nearEq (X prev) (X cur) then cur\<lparr>X := X prev\<rparr>
                  else if nearEq (Y prev) (Y cur) then cur\<lparr>Y := Y prev\<rparr>
                  else cur)
     in if nearEq (X cur1) (X nxt) then cur1\<lparr>X := X nxt\<rparr>
        else if nearEq (Y cur1) (Y nxt) then cur1\<lparr>Y := Y nxt\<rparr>
        else cur1)"

definition snapLast :: "Point \<Rightarrow> Point \<Rightarrow> Point" where
  "snapLast prevPt lastPt =
    (if nearEq (X prevPt) (X lastPt) then lastPt\<lparr>X := X prevPt\<rparr>
     else if nearEq (Y prevPt) (Y lastPt) then lastPt\<lparr>Y := Y prevPt\<rparr>
     else lastPt)"

text \<open>
  Second pass. \<open>collinearFrom prev ps\<close> is the rest of the loop and the final append
  when \<open>prev\<close> is the last element of \<^verbatim>\<open>result\<close> and \<open>ps\<close> is \<^verbatim>\<open>deduped[i:]\<close>;
  it returns what is still appended to \<^verbatim>\<open>result\<close>.
\<close>

fun collinearFrom :: "Point \<Rightarrow> Point list \<Rightarrow> Point list" where
  "collinearFrom prev [] = []"
| "collinearFrom prev [lastPt] = [snapLast prev lastPt]"
| "collinearFrom prev (cur # nxt # rest) =
     (let sameX = (nearEq (X prev) (X cur) \<and> nearEq (X cur) (X nxt));
          sameY = (nearEq (Y prev) (Y cur) \<and> nearEq (Y cur) (Y nxt))
      in if sameX \<or> sameY then collinearFrom prev (nxt # rest)
         else (let cur' = snapCurr prev cur nxt
               in cur' # collinearFrom cur' (nxt # rest)))"

definition simplifyRoute :: "Point list \<Rightarrow> Point list" where
  "simplifyRoute points =
    (if length points \<le> 1 then points
     else
       (let deduped = hd points # dedupFrom (hd points) (tl points)
        in if length deduped \<le> 2 then deduped
           else hd deduped # collinearFrom (hd deduped) (tl deduped)))"

text \<open>
  Vocabulary of the statements about simplification: a route whose consecutive points are
  exactly aligned on one axis and at least 0.5 apart on the other (\<open>hseg\<close>, \<open>vseg\<close>),
  and that never turns back on a straight run (\<open>forward\<close>).
\<close>

definition hseg :: "Point \<Rightarrow> Point \<Rightarrow> bool" where
  "hseg p q = (Y p = Y q \<and> 1 / 2 \<le> \<bar>X p - X q\<bar>)"

definition vseg :: "Point \<Rightarrow> Point \<Rightarrow> bool" where
  "vseg p q = (X p = X q \<and> 1 / 2 \<le> \<bar>Y p - Y q\<bar>)"

definition forward :: "Point \<Rightarrow> Point \<Rightarrow> Point \<Rightarrow> bool" where
  "forward p q r =
     ((hseg p q \<and> hseg q r \<longrightarrow> (X p < X q) = (X q < X r)) \<and>
      (vseg p q \<and> vseg q r \<longrightarrow> (Y p < Y q) = (Y q < Y r)))"

fun rectilinear :: "Point list \<Rightarrow> bool" where
  "rectilinear (p # q # r # rest) =
     ((hseg p q \<or> vseg p q) \<and> forward p q r \<and> rectilinear (q # r # rest))"
| "rectilinear [p, q] = (hseg p q \<or> vseg p q)"
| "rectilinear ps = True"

text \<open>
  A route whose segments alternate between horizontal and vertical (\<open>h\<close> tells whether
  the first one is horizontal): the shape of a simplified rectilinear route.
\<close>

fun alt :: "bool \<Rightarrow> Point list \<Rightarrow> bool" where
  "alt h (p # q # rest) = ((if h then hseg p q else vseg p q) \<and> alt (\<not> h) (q # rest))"
| "alt h ps = True"

text \<open>Concrete routes.\<close>

definition ce1_points :: "Point list" where
  "ce1_points = [\<lparr>X = 0, Y = 0\<rparr>, \<lparr>X = 100, Y = 0\<rparr>, \<lparr>X = 100, Y = 50\<rparr>,
                 \<lparr>X = 1004 / 10, Y = 100\<rparr>]"

definition ce4_points :: "Point list" where
  "ce4_points = [\<lparr>X = 0, Y = 0\<rparr>, \<lparr>X = 4 / 10, Y = 2\<rparr>, \<lparr>X = 5 / 10, Y = 9\<rparr>,
                 \<lparr>X = 2 / 10, Y = 11\<rparr>]"

definition w4_points :: "Point list" where
  "w4_points = [\<lparr>X = 0, Y = 0\<rparr>, \<lparr>X = 50, Y = 0\<rparr>, \<lparr>X = 100, Y = 0\<rparr>,
                \<lparr>X = 100, Y = 50\<rparr>]"

section \<open>Applying nudge offsets (d2gridrouter/nudging.go, d2wueortho/nudging.go)\<close>

record EdgeRoute =
  RouteEdgeIdx :: nat
  Points :: "Point list"

record edgeSegment =
  edgeIdx :: nat
  segIdx :: nat
  orientation :: Orientation
  fixedCoord :: real
  rangeMin :: real
  rangeMax :: real

record segmentBundle =
  bundleOrientation :: Orientation
  bundleFixedCoord :: real
  segments :: "edgeSegment list"

text \<open>
  One iteration of the loop of \<^verbatim>\<open>applyNudgeOffsets\<close>. \<^verbatim>\<open>offsets\<close> is a Go map read
  with the zero default, a total function here. \<^verbatim>\<open>routes[seg.edgeIdx]\<close> panics out of
  range. The points of a route are updated through pointers in the source and by index
  here, which agree when no point is shared between two positions.
\<close>

definition addY :: "real \<Rightarrow> Point \<Rightarrow> Point" where
  "addY d p = p\<lparr>Y := Y p + d\<rparr>"

definition addX :: "real \<Rightarrow> Point \<Rightarrow> Point" where
  "addX d p = p\<lparr>X := X p + d\<rparr>"

definition nudgeSegment ::
  "Orientation \<Rightarrow> (nat \<Rightarrow> real) \<Rightarrow> edgeSegment \<Rightarrow> EdgeRoute list \<Rightarrow> EdgeRoute list option" where
  "nudgeSegment bo offsets seg routes =
    (let offset = offsets (edgeIdx seg)
     in if \<bar>offset\<bar> < 1 / 10 then Some routes
        else if \<not> edgeIdx seg < length routes then None
        else
          (let pts = Points (routes ! edgeIdx seg)
           in if int (segIdx seg) \<ge> int (length pts) - 1 then Some routes
              else
                (let isFirstPt = (segIdx seg = 0);
                     isLastPt = (segIdx seg + 1 = length pts - 1);
                     move = (if bo = Horizontal then addY offset else addX offset);
                     pts1 = (if \<not> isFirstPt then pts[segIdx seg := move (pts ! segIdx seg)] else pts);
                     pts2 = (if \<not> isLastPt
                             then pts1[segIdx seg + 1 := move (pts1 ! (segIdx seg + 1))]
                             else pts1)
                 in Some (routes[edgeIdx seg := (routes ! edgeIdx seg)\<lparr>Points := pts2\<rparr>]))))"

definition applyNudgeOffsets ::
  "EdgeRoute list \<Rightarrow> segmentBundle \<Rightarrow> (nat \<Rightarrow> real) \<Rightarrow> EdgeRoute list option" where
  "applyNudgeOffsets routes bundle offsets =
    fold (\<lambda>seg r. Option.bind r (nudgeSegment (bundleOrientation bundle) offsets seg))
         (segments bundle) (Some routes)"

text \<open>
  Vocabulary of the statements about nudging: two lists of routes of the same shape whose
  routes agree on their first and last point.
\<close>

definition sameEnds :: "EdgeRoute list \<Rightarrow> EdgeRoute list \<Rightarrow> bool" where
  "sameEnds routes routes' =
     (length routes' = length routes \<and>
      (\<forall>r < length routes.
         length (Points (routes' ! r)) = length (Points (routes ! r)) \<and>
         Points (routes' ! r) ! 0 = Points (routes ! r) ! 0 \<and>
         Points (routes' ! r) ! (length (Points (routes ! r)) - 1) =
           Points (routes ! r) ! (length (Points (routes ! r)) - 1)))"

text \<open>Concrete routes sharing a vertical corridor at x = 50, and their offsets.\<close>

definition w1_routes :: "EdgeRoute list" where
  "w1_routes =
     [\<lparr>RouteEdgeIdx = 0,
        Points = [\<lparr>X = 0, Y = 0\<rparr>, \<lparr>X = 50, Y = 0\<rparr>, \<lparr>X = 50, Y = 100\<rparr>, \<lparr>X = 100, Y = 100\<rparr>]\<rparr>,
      \<lparr>RouteEdgeIdx = 1,
        Points = [\<lparr>X = 0, Y = 20\<rparr>, \<lparr>X = 50, Y = 20\<rparr>, \<lparr>X = 50, Y = 80\<rparr>, \<lparr>X = 100, Y = 80\<rparr>]\<rparr>]"

definition w1_bundle :: segmentBundle where
  "w1_bundle =
     \<lparr>bundleOrientation = Vertical, bundleFixedCoord = 50,
      segments = [\<lparr>edgeIdx = 0, segIdx = 1, orientation = Vertical, fixedCoord = 50,
                    rangeMin = 0, rangeMax = 100\<rparr>,
                  \<lparr>edgeIdx = 1, segIdx = 1, orientation = Vertical, fixedCoord = 50,
                    rangeMin = 20, rangeMax = 80\<rparr>]\<rparr>"

definition w1_offsets :: "nat \<Rightarrow> real" where
  "w1_offsets e = (if e = 0 then - 5 else if e = 1 then 5 else 0)"


section \<open>Routing graph and crossing penalties (d2gridrouter/types.go, router.go)\<close>

record RoutingGraphNode =
  ID :: nat
  NodePos :: Point

record RoutingGraphEdge =
  From :: nat
  To :: nat
  Weight :: real
  EdgeOrientation :: Orientation

text \<open>
  \<^verbatim>\<open>Adj\<close> is a Go map from node IDs to slices; a missing key reads as the empty slice, so
  the map is a total function here. \<^verbatim>\<open>range rg.Adj\<close> visits every key once, in an order
  Go leaves unspecified: the functions that range over the map take that order as the
  list \<open>order\<close>.
\<close>

record RoutingGraph =
  Nodes :: "RoutingGraphNode list"
  Adj :: "nat \<Rightarrow> RoutingGraphEdge list"

record routedSeg =
  segFrom :: nat
  segTo :: nat

definition crossingPenalty :: real where
  "crossingPenalty = 500"

definition segmentsCross :: "Point \<Rightarrow> Point \<Rightarrow> Point \<Rightarrow> Point \<Rightarrow> bool" where
  "segmentsCross a1 a2 b1 b2 =
    (let aHoriz = (\<bar>Y a1 - Y a2\<bar> < 1 / 2);
         bHoriz = (\<bar>Y b1 - Y b2\<bar> < 1 / 2)
     in if aHoriz = bHoriz then False
        else
          (let (hStart, hEnd, vStart, vEnd) =
                 (if aHoriz then (a1, a2, b1, b2) else (b1, b2, a1, a2));
               hMinX = min (X hStart) (X hEnd);
               hMaxX = max (X hStart) (X hEnd);
               vMinY = min (Y vStart) (Y vEnd);
               vMaxY = max (Y vStart) (Y vEnd)
           in X vStart > hMinX \<and> X vStart < hMaxX \<and>
              Y hStart > vMinY \<and> Y hStart < vMaxY))"

text \<open>
  The loop over \<^verbatim>\<open>routed\<close> for one graph edge from \<open>fromPos\<close> to \<open>toPos\<close>: whether
  the edge crosses a routed segment. Reading \<^verbatim>\<open>rg.Nodes\<close> out of range panics
  (\<open>None\<close>); the loop stops at the first crossing.
\<close>

fun crossesRouted :: "RoutingGraphNode list \<Rightarrow> Point \<Rightarrow> Point \<Rightarrow> routedSeg list \<Rightarrow> bool option" where
  "crossesRouted nodes fromPos toPos [] = Some False"
| "crossesRouted nodes fromPos toPos (rs # rest) =
     (if segFrom rs < length nodes \<and> segTo rs < length nodes then
        (if segmentsCross fromPos toPos (NodePos (nodes ! segFrom rs)) (NodePos (nodes ! segTo rs))
         then Some True
         else crossesRouted nodes fromPos toPos rest)
      else None)"

definition bumpWeight :: "(real \<Rightarrow> real) \<Rightarrow> RoutingGraphEdge \<Rightarrow> RoutingGraphEdge" where
  "bumpWeight upd e = e\<lparr>Weight := upd (Weight e)\<rparr>"

text \<open>
  The inner loop over \<^verbatim>\<open>rg.Adj[edge.To]\<close>: the first edge that leads from \<open>t\<close> back to
  \<open>f\<close> gets its weight updated.
\<close>

fun bumpFirstRev :: "(real \<Rightarrow> real) \<Rightarrow> nat \<Rightarrow> nat \<Rightarrow> RoutingGraphEdge list \<Rightarrow> RoutingGraphEdge list" where
  "bumpFirstRev upd t f [] = []"
| "bumpFirstRev upd t f (rv # rest) =
     (if From rv = t \<and> To rv = f then bumpWeight upd rv # rest
      else rv # bumpFirstRev upd t f rest)"

text \<open>
  \<^verbatim>\<open>addCrossingPenalties\<close> and \<^verbatim>\<open>removeCrossingPenalties\<close> are the same loops and
  differ in the weight update only (\<^verbatim>\<open>+=\<close> and \<^verbatim>\<open>-=\<close>), the parameter \<open>upd\<close> of the
  common part. \<open>penalizeEdge\<close> is the body for the edge \<^verbatim>\<open>rg.Adj[nodeID][ei]\<close>,
  \<open>penalizeNode\<close> the loop over \<^verbatim>\<open>ei\<close>, \<open>penaltyPass\<close> the function body.
\<close>

definition penalizeEdge ::
  "(real \<Rightarrow> real) \<Rightarrow> RoutingGraphNode list \<Rightarrow> routedSeg list \<Rightarrow> nat \<Rightarrow> nat \<Rightarrow>
   (nat \<Rightarrow> RoutingGraphEdge list) \<Rightarrow> (nat \<Rightarrow> RoutingGraphEdge list) option" where
  "penalizeEdge upd nodes routed nodeID ei adj =
    (let e = adj nodeID ! ei
     in if From e \<noteq> nodeID then Some adj
        else if \<not> (From e < length nodes \<and> To e < length nodes) then None
        else
          (case crossesRouted nodes (NodePos (nodes ! From e)) (NodePos (nodes ! To e)) routed of
             None \<Rightarrow> None
           | Some False \<Rightarrow> Some adj
           | Some True \<Rightarrow>
               (let adj1 = adj(nodeID := (adj nodeID)[ei := bumpWeight upd e]);
                    adj2 = adj1(To e := bumpFirstRev upd (To e) (From e) (adj1 (To e)))
                in Some adj2)))"

definition penalizeNode ::
  "(real \<Rightarrow> real) \<Rightarrow> RoutingGraphNode list \<Rightarrow> routedSeg list \<Rightarrow> nat \<Rightarrow>
   (nat \<Rightarrow> RoutingGraphEdge list) \<Rightarrow> (nat \<Rightarrow> RoutingGraphEdge list) option" where
  "penalizeNode upd nodes routed nodeID adj =
    fold (\<lambda>ei r. Option.bind r (penalizeEdge upd nodes routed nodeID ei))
         [0..<length (adj nodeID)] (Some adj)"

definition penaltyPass ::
  "(real \<Rightarrow> real) \<Rightarrow> nat list \<Rightarrow> RoutingGraph \<Rightarrow> routedSeg list \<Rightarrow> RoutingGraph option" where
  "penaltyPass upd order rg routed =
    (if length routed = 0 then Some rg
     else map_option (\<lambda>adj. rg\<lparr>Adj := adj\<rparr>)
            (fold (\<lambda>nodeID r. Option.bind r (penalizeNode upd (Nodes rg) routed nodeID))
                  order (Some (Adj rg))))"

text \<open>
  Weights are binary64 in the source, and the claim about these two functions is about
  exact values, so the rounding of the two operations is explicit here: \<open>rnd\<close> is applied
  to the exact sum and difference. It is \<open>round64\<close> for the source's arithmetic and the
  identity for exact arithmetic.
\<close>

definition addCrossingPenalties ::
  "(real \<Rightarrow> real) \<Rightarrow> nat list \<Rightarrow> RoutingGraph \<Rightarrow> routedSeg list \<Rightarrow> RoutingGraph option" where
  "addCrossingPenalties rnd order rg routed =
     penaltyPass (\<lambda>w. rnd (w + crossingPenalty)) order rg routed"

definition removeCrossingPenalties ::
  "(real \<Rightarrow> real) \<Rightarrow> nat list \<Rightarrow> RoutingGraph \<Rightarrow> routedSeg list \<Rightarrow> RoutingGraph option" where
  "removeCrossingPenalties rnd order rg routed =
     penaltyPass (\<lambda>w. rnd (w - crossingPenalty)) order rg routed"

text \<open>
  IEEE 754 binary64 rounding (to nearest, ties to even) of a real in the normal range:
  \<open>binade a\<close> is the exponent \<open>e\<close> with \<open>2^e \<le> a < 2^(e+1)\<close>, the result is the multiple
  of \<open>2^(e-52)\<close> nearest to the argument. Subnormal results and overflow are not modelled.
\<close>

definition binade :: "real \<Rightarrow> int" where
  "binade a =
     (if 1 \<le> a then int (floorlog 2 (nat \<lfloor>a\<rfloor>)) - 1
      else - int (floorlog 2 (nat (\<lceil>1 / a\<rceil> - 1))))"

definition round64 :: "real \<Rightarrow> real" where
  "round64 x =
     (if x = 0 then 0
      else
        (let a = \<bar>x\<bar>;
             u = 2 powi (binade a - 52);
             m = a / u;
             f = \<lfloor>m\<rfloor>;
             r = m - of_int f;
             n = (if r < 1 / 2 then f
                  else if 1 / 2 < r then f + 1
                  else if even f then f else f + 1)
         in sgn x * of_int n * u))"

text \<open>
  The plan of a pass: the positions \<open>(node, index)\<close> of the adjacency lists whose weight
  the pass updates, in the order of the updates. It is what the statements about the two
  passes are proved through.
\<close>

fun firstRev :: "nat \<Rightarrow> nat \<Rightarrow> RoutingGraphEdge list \<Rightarrow> nat option" where
  "firstRev t f [] = None"
| "firstRev t f (rv # rest) =
     (if From rv = t \<and> To rv = f then Some 0 else map_option Suc (firstRev t f rest))"

definition planEdge ::
  "RoutingGraphNode list \<Rightarrow> routedSeg list \<Rightarrow> nat \<Rightarrow> nat \<Rightarrow>
   (nat \<Rightarrow> RoutingGraphEdge list) \<Rightarrow> (nat \<times> nat) list option" where
  "planEdge nodes routed nodeID ei adj =
    (let e = adj nodeID ! ei
     in if From e \<noteq> nodeID then Some []
        else if \<not> (From e < length nodes \<and> To e < length nodes) then None
        else
          (case crossesRouted nodes (NodePos (nodes ! From e)) (NodePos (nodes ! To e)) routed of
             None \<Rightarrow> None
           | Some False \<Rightarrow> Some []
           | Some True \<Rightarrow>
               Some ((nodeID, ei) #
                 (case firstRev (To e) (From e) (adj (To e)) of
                    None \<Rightarrow> []
                  | Some j \<Rightarrow> [(To e, j)]))))"

fun planAll :: "('a \<Rightarrow> (nat \<times> nat) list option) \<Rightarrow> 'a list \<Rightarrow> (nat \<times> nat) list option" where
  "planAll f [] = Some []"
| "planAll f (x # xs) =
     (case f x of None \<Rightarrow> None
      | Some p \<Rightarrow> (case planAll f xs of None \<Rightarrow> None | Some q \<Rightarrow> Some (p @ q)))"

definition planNode ::
  "RoutingGraphNode list \<Rightarrow> routedSeg list \<Rightarrow> (nat \<Rightarrow> RoutingGraphEdge list) \<Rightarrow> nat \<Rightarrow>
   (nat \<times> nat) list option" where
  "planNode nodes routed adj nodeID =
     planAll (\<lambda>ei. planEdge nodes routed nodeID ei adj) [0..<length (adj nodeID)]"

definition bumpAt ::
  "(real \<Rightarrow> real) \<Rightarrow> nat \<times> nat \<Rightarrow> (nat \<Rightarrow> RoutingGraphEdge list) \<Rightarrow> (nat \<Rightarrow> RoutingGraphEdge list)" where
  "bumpAt upd p adj = adj(fst p := (adj (fst p))[snd p := bumpWeight upd (adj (fst p) ! snd p)])"

definition applyPlan ::
  "(real \<Rightarrow> real) \<Rightarrow> (nat \<times> nat) list \<Rightarrow> (nat \<Rightarrow> RoutingGraphEdge list) \<Rightarrow> (nat \<Rightarrow> RoutingGraphEdge list)" where
  "applyPlan upd plan adj = fold (bumpAt upd) plan adj"

definition shape :: "(nat \<Rightarrow> RoutingGraphEdge list) \<Rightarrow> nat \<Rightarrow> (nat \<times> nat) list" where
  "shape adj n = map (\<lambda>e. (From e, To e)) (adj n)"

text \<open>
  A concrete graph: a horizontal edge between the nodes 0 and 1, of length 33.33 (the
  binary64 number nearest to it), crossed by the routed vertical segment from node 2 to
  node 3.
\<close>

definition w3364 :: real where
  "w3364 = 2345390243441541 / 70368744177664"

definition ce3_graph :: RoutingGraph where
  "ce3_graph =
     \<lparr>Nodes = [\<lparr>ID = 0, NodePos = \<lparr>X = 0, Y = 0\<rparr>\<rparr>,
               \<lparr>ID = 1, NodePos = \<lparr>X = 3333 / 100, Y = 0\<rparr>\<rparr>,
               \<lparr>ID = 2, NodePos = \<lparr>X = 10, Y = - 20\<rparr>\<rparr>,
               \<lparr>ID = 3, NodePos = \<lparr>X = 10, Y = 20\<rparr>\<rparr>],
      Adj = (\<lambda>n. if n = 0 then [\<lparr>From = 0, To = 1, Weight = w3364, EdgeOrientation = Horizontal\<rparr>]
                else if n = 1 then [\<lparr>From = 1, To = 0, Weight = w3364, EdgeOrientation = Horizontal\<rparr>]
                else if n = 2 then [\<lparr>From = 2, To = 3, Weight = 40, EdgeOrientation = Vertical\<rparr>]
                else if n = 3 then [\<lparr>From = 3, To = 2, Weight = 40, EdgeOrientation = Vertical\<rparr>]
                else [])\<rparr>"

definition ce3_routed :: "routedSeg list" where
  "ce3_routed = [\<lparr>segFrom = 2, segTo = 3\<rparr>]"


section \<open>Modified Dijkstra (d2gridrouter/types.go, dijkstra.go)\<close>

record DijkstraState =
  NodeID :: nat
  Length :: real
  Bends :: nat
  Direction :: Orientation
  Parent :: int

definition stateLess :: "DijkstraState \<Rightarrow> DijkstraState \<Rightarrow> bool" where
  "stateLess a b =
    (if \<bar>Length a - Length b\<bar> > 1 / 10 ^ 9 then Length a < Length b
     else Bends a < Bends b)"

type_synonym stateKey = "nat \<times> Orientation"

text \<open>
  Modelled from the spec: \<^verbatim>\<open>heap.Push\<close> and \<^verbatim>\<open>heap.Pop\<close> are Go's standard library
  \<^verbatim>\<open>container/heap\<close>, which is not under src; the spec says only that the smallest state
  is popped. They are the binary heap of that library on the slice \<^verbatim>\<open>dijkstraPQ\<close>:
  push appends and sifts up, pop swaps the root with the last element, sifts the root
  down and removes the last element.
\<close>

definition swapAt :: "'a list \<Rightarrow> nat \<Rightarrow> nat \<Rightarrow> 'a list" where
  "swapAt h i j = h[i := h ! j, j := h ! i]"

function heapUp :: "('a \<Rightarrow> 'a \<Rightarrow> bool) \<Rightarrow> 'a list \<Rightarrow> nat \<Rightarrow> 'a list" where
  "heapUp lt h j =
    (let i = (j - 1) div 2
     in if i = j \<or> \<not> lt (h ! j) (h ! i) then h
        else heapUp lt (swapAt h i j) i)"
  by pat_completeness auto
termination
  by (relation "measure (\<lambda>(lt, h, j). j)") auto

declare heapUp.simps [simp del]

function heapDown :: "('a \<Rightarrow> 'a \<Rightarrow> bool) \<Rightarrow> 'a list \<Rightarrow> nat \<Rightarrow> nat \<Rightarrow> 'a list" where
  "heapDown lt h i n =
    (let j1 = 2 * i + 1
     in if j1 \<ge> n then h
        else
          (let j = (if j1 + 1 < n \<and> lt (h ! (j1 + 1)) (h ! j1) then j1 + 1 else j1)
           in if \<not> lt (h ! j) (h ! i) then h
              else heapDown lt (swapAt h i j) j n))"
  by pat_completeness auto
termination
  by (relation "measure (\<lambda>(lt, h, i, n). n - i)") auto

declare heapDown.simps [simp del]

definition heapPush :: "('a \<Rightarrow> 'a \<Rightarrow> bool) \<Rightarrow> 'a list \<Rightarrow> 'a \<Rightarrow> 'a list" where
  "heapPush lt h x = heapUp lt (h @ [x]) (length h)"

definition heapPop :: "('a \<Rightarrow> 'a \<Rightarrow> bool) \<Rightarrow> 'a list \<Rightarrow> 'a \<times> 'a list" where
  "heapPop lt h =
    (let n = length h - 1;
         h1 = heapDown lt (swapAt h 0 n) 0 n
     in (h1 ! n, take n h1))"

text \<open>
  The state of the search: the three maps of \<^verbatim>\<open>dijkstraRoute\<close>, the queue, and
  \<open>found\<close>, the key at which the loop returned (\<open>None\<close> while it runs).
\<close>

record DijkstraSearch =
  best :: "stateKey \<Rightarrow> DijkstraState option"
  parent :: "stateKey \<Rightarrow> stateKey option"
  visited :: "stateKey \<Rightarrow> bool"
  pq :: "DijkstraState list"
  found :: "stateKey option"

definition seedState :: "nat \<Rightarrow> Orientation \<Rightarrow> DijkstraState" where
  "seedState srcNode dir =
     \<lparr>NodeID = srcNode, Length = 0, Bends = 0, Direction = dir, Parent = - 1\<rparr>"

definition pushSeed :: "nat \<Rightarrow> Orientation \<Rightarrow> DijkstraSearch \<Rightarrow> DijkstraSearch" where
  "pushSeed srcNode dir st =
    (let s = seedState srcNode dir;
         key = (srcNode, dir)
     in st\<lparr>best := (best st)(key \<mapsto> s), pq := heapPush stateLess (pq st) s\<rparr>)"

definition dijkstraInit :: "nat \<Rightarrow> DijkstraSearch" where
  "dijkstraInit srcNode =
     fold (pushSeed srcNode) [Horizontal, Vertical]
       \<lparr>best = Map.empty, parent = Map.empty, visited = (\<lambda>k. False), pq = [], found = None\<rparr>"

text \<open>The state built in the loop over the neighbours, and the body of that loop.\<close>

definition newState :: "nat \<Rightarrow> DijkstraState \<Rightarrow> RoutingGraphEdge \<Rightarrow> DijkstraState" where
  "newState srcNode cur e =
    (let newBends = (if NodeID cur \<noteq> srcNode \<and> EdgeOrientation e \<noteq> Direction cur
                     then Bends cur + 1 else Bends cur)
     in \<lparr>NodeID = To e, Length = Length cur + Weight e, Bends = newBends,
         Direction = EdgeOrientation e, Parent = int (NodeID cur)\<rparr>)"

definition expandEdge :: "nat \<Rightarrow> DijkstraState \<Rightarrow> RoutingGraphEdge \<Rightarrow> DijkstraSearch \<Rightarrow> DijkstraSearch" where
  "expandEdge srcNode cur e st =
    (let ns = newState srcNode cur e;
         newKey = (To e, EdgeOrientation e)
     in if visited st newKey then st
        else if (case best st newKey of Some b \<Rightarrow> \<not> stateLess ns b | None \<Rightarrow> False) then st
        else st\<lparr>best := (best st)(newKey \<mapsto> ns),
                parent := (parent st)(newKey \<mapsto> (NodeID cur, Direction cur)),
                pq := heapPush stateLess (pq st) ns\<rparr>)"

definition dijkstraStep :: "RoutingGraph \<Rightarrow> nat \<Rightarrow> nat \<Rightarrow> DijkstraSearch \<Rightarrow> DijkstraSearch" where
  "dijkstraStep rg srcNode dstNode st =
    (let (cur, rest) = heapPop stateLess (pq st);
         curKey = (NodeID cur, Direction cur)
     in if visited st curKey then st\<lparr>pq := rest\<rparr>
        else
          (let st1 = st\<lparr>pq := rest, visited := (visited st)(curKey := True)\<rparr>
           in if NodeID cur = dstNode then st1\<lparr>found := Some curKey\<rparr>
              else fold (expandEdge srcNode cur) (Adj rg (NodeID cur)) st1))"

text \<open>
  \<^verbatim>\<open>reconstructPath\<close>: the loop state is the current key, the path so far and whether
  the loop has left through \<^verbatim>\<open>break\<close>. A loop that does not end is the value \<open>None\<close>.
\<close>

definition reconstructPath :: "(stateKey \<Rightarrow> stateKey option) \<Rightarrow> stateKey \<Rightarrow> nat \<Rightarrow> nat list option" where
  "reconstructPath par endKey srcNode =
    map_option (\<lambda>(k, path, brk). rev path)
      (while_option (\<lambda>(k, path, brk). fst k \<noteq> srcNode \<and> \<not> brk)
         (\<lambda>(k, path, brk).
            (case par k of None \<Rightarrow> (k, path @ [fst k], True)
             | Some prev \<Rightarrow> (prev, path @ [fst k], False)))
         (endKey, [], False))"

text \<open>
  \<^verbatim>\<open>dijkstraRoute\<close>. The result \<^verbatim>\<open>nil\<close> of the source is the empty list; \<open>None\<close> is a
  search that does not return.
\<close>

definition dijkstraRoute :: "RoutingGraph \<Rightarrow> nat \<Rightarrow> nat \<Rightarrow> nat list option" where
  "dijkstraRoute rg srcNode dstNode =
    (if srcNode = dstNode then Some [srcNode]
     else
       (case while_option (\<lambda>st. found st = None \<and> length (pq st) > 0)
               (dijkstraStep rg srcNode dstNode) (dijkstraInit srcNode) of
          None \<Rightarrow> None
        | Some st \<Rightarrow>
            (case found st of
               None \<Rightarrow> Some []
             | Some curKey \<Rightarrow> reconstructPath (parent st) curKey srcNode)))"

text \<open>A concrete graph: a square with corners 0 (0,0), 1 (10,0), 2 (10,10), 3 (0,10).\<close>

definition w2_graph :: RoutingGraph where
  "w2_graph =
     \<lparr>Nodes = [\<lparr>ID = 0, NodePos = \<lparr>X = 0, Y = 0\<rparr>\<rparr>,
               \<lparr>ID = 1, NodePos = \<lparr>X = 10, Y = 0\<rparr>\<rparr>,
               \<lparr>ID = 2, NodePos = \<lparr>X = 10, Y = 10\<rparr>\<rparr>,
               \<lparr>ID = 3, NodePos = \<lparr>X = 0, Y = 10\<rparr>\<rparr>],
      Adj = (\<lambda>n. if n = 0 then [\<lparr>From = 0, To = 1, Weight = 10, EdgeOrientation = Horizontal\<rparr>,
                                 \<lparr>From = 0, To = 3, Weight = 10, EdgeOrientation = Vertical\<rparr>]
                else if n = 1 then [\<lparr>From = 1, To = 0, Weight = 10, EdgeOrientation = Horizontal\<rparr>,
                                    \<lparr>From = 1, To = 2, Weight = 10, EdgeOrientation = Vertical\<rparr>]
                else if n = 2 then [\<lparr>From = 2, To = 1, Weight = 10, EdgeOrientation = Vertical\<rparr>,
                                    \<lparr>From = 2, To = 3, Weight = 10, EdgeOrientation = Horizontal\<rparr>]
                else if n = 3 then [\<lparr>From = 3, To = 0, Weight = 10, EdgeOrientation = Vertical\<rparr>,
                                    \<lparr>From = 3, To = 2, Weight = 10, EdgeOrientation = Horizontal\<rparr>]
                else [])\<rparr>"


section \<open>Routing all edges (d2gridrouter/router.go)\<close>

definition distSq :: "Point \<Rightarrow> Point \<Rightarrow> real" where
  "distSq a b = (let dx = X a - X b; dy = Y a - Y b in dx * dx + dy * dy)"

text \<open>\<^verbatim>\<open>FindNearest\<close> returns -1 on a graph without nodes, \<open>None\<close> here.\<close>

definition FindNearest :: "RoutingGraph \<Rightarrow> Point \<Rightarrow> nat option" where
  "FindNearest rg p =
    (if length (Nodes rg) = 0 then None
     else Some (fst (fold (\<lambda>i (bestID, bestDist).
                            (let d = distSq (NodePos (Nodes rg ! i)) p
                             in if d < bestDist then (i, d) else (bestID, bestDist)))
                          [1..<length (Nodes rg)]
                          (0, distSq (NodePos (Nodes rg ! 0)) p))))"

record edgePriority =
  idx :: nat
  priority :: nat
  distance :: real

text \<open>The comparison function handed to \<^verbatim>\<open>sort.Slice\<close> in \<^verbatim>\<open>edgeRoutingOrder\<close>.\<close>

definition priorityLess :: "edgePriority \<Rightarrow> edgePriority \<Rightarrow> bool" where
  "priorityLess a b =
    (if priority a \<noteq> priority b then priority a < priority b
     else distance a > distance b)"

definition sameAxis :: "Port \<Rightarrow> Port \<Rightarrow> bool" where
  "sameAxis src dst =
    ((Side src = DirBottom \<and> Side dst = DirTop) \<or>
     (Side src = DirTop \<and> Side dst = DirBottom) \<or>
     (Side src = DirRight \<and> Side dst = DirLeft) \<or>
     (Side src = DirLeft \<and> Side dst = DirRight))"

definition edgePriorityOf :: "PortAssignment \<Rightarrow> nat \<Rightarrow> edgePriority" where
  "edgePriorityOf ports i =
    (let src = SrcPorts ports ! i;
         dst = DstPorts ports ! i;
         dx = \<bar>X (Pos src) - X (Pos dst)\<bar>;
         dy = \<bar>Y (Pos src) - Y (Pos dst)\<bar>;
         p = (if sameAxis src dst then 0 else 1)
     in \<lparr>idx = i, priority = p, distance = dx + dy\<rparr>)"

text \<open>
  \<^verbatim>\<open>edgeRoutingOrder\<close> reads the two ports of every edge (a panic when the port slices
  are shorter than the edge list), sorts and returns the indices.
\<close>

definition edgeRoutingOrder :: "edgePriority sorter \<Rightarrow> PortAssignment \<Rightarrow> Edge list \<Rightarrow> nat list option" where
  "edgeRoutingOrder srt ports edges =
    (if length edges \<le> length (SrcPorts ports) \<and> length edges \<le> length (DstPorts ports)
     then Some (map idx (srt priorityLess (map (edgePriorityOf ports) [0..<length edges])))
     else None)"

text \<open>The state of the loop of \<^verbatim>\<open>routeAllEdges\<close> and its body for the edge \<open>i\<close>.\<close>

record RouteLoop =
  loopGraph :: RoutingGraph
  routedSegments :: "routedSeg list"
  loopRoutes :: "EdgeRoute list"

definition straightRoute :: "nat \<Rightarrow> Port \<Rightarrow> Port \<Rightarrow> EdgeRoute" where
  "straightRoute i srcPort dstPort =
     \<lparr>RouteEdgeIdx = i,
      Points = [\<lparr>X = X (Pos srcPort), Y = Y (Pos srcPort)\<rparr>, \<lparr>X = X (Pos dstPort), Y = Y (Pos dstPort)\<rparr>]\<rparr>"

fun pathSegments :: "nat list \<Rightarrow> routedSeg list" where
  "pathSegments (a # b # rest) = \<lparr>segFrom = a, segTo = b\<rparr> # pathSegments (b # rest)"
| "pathSegments path = []"

definition routePoints :: "RoutingGraph \<Rightarrow> Port \<Rightarrow> Port \<Rightarrow> nat list \<Rightarrow> Point list" where
  "routePoints rg srcPort dstPort path =
     \<lparr>X = X (Pos srcPort), Y = Y (Pos srcPort)\<rparr>
     # map (\<lambda>nodeID. \<lparr>X = X (NodePos (Nodes rg ! nodeID)), Y = Y (NodePos (Nodes rg ! nodeID))\<rparr>) path
     @ [\<lparr>X = X (Pos dstPort), Y = Y (Pos dstPort)\<rparr>]"

text \<open>The part of the body after the two nearest nodes are known to exist and to differ.\<close>

definition routeThroughGraph ::
  "(real \<Rightarrow> real) \<Rightarrow> nat list \<Rightarrow> Port \<Rightarrow> Port \<Rightarrow> nat \<Rightarrow> nat \<Rightarrow> nat \<Rightarrow> RouteLoop \<Rightarrow> RouteLoop option" where
  "routeThroughGraph rnd adjOrder srcPort dstPort srcNodeID dstNodeID i st =
    (case addCrossingPenalties rnd adjOrder (loopGraph st) (routedSegments st) of
       None \<Rightarrow> None
     | Some rg1 \<Rightarrow>
        (case dijkstraRoute rg1 srcNodeID dstNodeID of
           None \<Rightarrow> None
         | Some path \<Rightarrow>
            (case removeCrossingPenalties rnd adjOrder rg1 (routedSegments st) of
               None \<Rightarrow> None
             | Some rg2 \<Rightarrow>
                (if length path = 0
                 then Some (st\<lparr>loopGraph := rg2,
                               loopRoutes := (loopRoutes st)[i := straightRoute i srcPort dstPort]\<rparr>)
                 else if \<exists>nodeID \<in> set path. \<not> nodeID < length (Nodes rg2) then None
                 else Some (st\<lparr>loopGraph := rg2,
                               loopRoutes := (loopRoutes st)
                                 [i := \<lparr>RouteEdgeIdx = i,
                                        Points = simplifyRoute (routePoints rg2 srcPort dstPort path)\<rparr>],
                               routedSegments := routedSegments st @ pathSegments path\<rparr>)))))"

definition routeEdgeStep ::
  "(real \<Rightarrow> real) \<Rightarrow> nat list \<Rightarrow> PortAssignment \<Rightarrow> nat \<Rightarrow> RouteLoop \<Rightarrow> RouteLoop option" where
  "routeEdgeStep rnd adjOrder ports i st =
    (if \<not> (i < length (SrcPorts ports) \<and> i < length (DstPorts ports) \<and> i < length (loopRoutes st))
     then None
     else
       (let srcPort = SrcPorts ports ! i;
            dstPort = DstPorts ports ! i;
            srcNodeID = FindNearest (loopGraph st) (Pos srcPort);
            dstNodeID = FindNearest (loopGraph st) (Pos dstPort)
        in if srcNodeID = None \<or> dstNodeID = None \<or> srcNodeID = dstNodeID
           then Some (st\<lparr>loopRoutes := (loopRoutes st)[i := straightRoute i srcPort dstPort]\<rparr>)
           else routeThroughGraph rnd adjOrder srcPort dstPort (the srcNodeID) (the dstNodeID) i st))"

definition routeAllEdges ::
  "edgePriority sorter \<Rightarrow> (real \<Rightarrow> real) \<Rightarrow> nat list \<Rightarrow> RoutingGraph \<Rightarrow> PortAssignment \<Rightarrow> Edge list \<Rightarrow>
   EdgeRoute list option" where
  "routeAllEdges srt rnd adjOrder rg ports edges =
    (case edgeRoutingOrder srt ports edges of
       None \<Rightarrow> None
     | Some order \<Rightarrow>
         map_option loopRoutes
           (fold (\<lambda>i r. Option.bind r (routeEdgeStep rnd adjOrder ports i)) order
              (Some \<lparr>loopGraph = rg, routedSegments = [],
                     loopRoutes = replicate (length edges) \<lparr>RouteEdgeIdx = 0, Points = []\<rparr>\<rparr>)))"

section \<open>The entry point of the corridor router (d2gridrouter/router.go)\<close>

fun sameParent :: "(ObjRef \<Rightarrow> Object) \<Rightarrow> ObjRef option \<Rightarrow> Edge list \<Rightarrow> bool" where
  "sameParent heap par [] = True"
| "sameParent heap par (e # es) =
     (if Object.Parent (heap (Src e)) \<noteq> par \<or> Object.Parent (heap (Dst e)) \<noteq> par then False
      else sameParent heap par es)"

text \<open>\<^verbatim>\<open>findCommonParent\<close>; the result \<^verbatim>\<open>nil\<close> is \<open>None\<close>.\<close>

definition findCommonParent :: "(ObjRef \<Rightarrow> Object) \<Rightarrow> Edge list \<Rightarrow> ObjRef option" where
  "findCommonParent heap edges =
    (if length edges = 0 then None
     else
       (let par = Object.Parent (heap (Src (edges ! 0)))
        in if sameParent heap par edges then par else None))"

text \<open>
  The loop that collects the endpoints of the edges; the map \<^verbatim>\<open>seen\<close> holds exactly the
  objects already appended.
\<close>

fun collectEndpoints :: "Edge list \<Rightarrow> ObjRef list \<Rightarrow> ObjRef list" where
  "collectEndpoints [] allObjects = allObjects"
| "collectEndpoints (e # es) allObjects =
     (let a1 = (if Src e \<notin> set allObjects then allObjects @ [Src e] else allObjects);
          a2 = (if Dst e \<notin> set a1 then a1 @ [Dst e] else a1)
      in collectEndpoints es a2)"

definition collectObjects :: "(ObjRef \<Rightarrow> Object) \<Rightarrow> Edge list \<Rightarrow> ObjRef list" where
  "collectObjects heap edges =
    (case findCommonParent heap edges of
       Some par \<Rightarrow>
         (if length (ChildrenArray (heap par)) > 0 then ChildrenArray (heap par)
          else collectEndpoints edges [])
     | None \<Rightarrow> collectEndpoints edges [])"

text \<open>
  \<^verbatim>\<open>nodeIndex\<close> is a Go map filled in the order of \<^verbatim>\<open>allObjects\<close> (a later index
  replaces an earlier one) and read with the zero default.
\<close>

definition nodeIndexOf :: "ObjRef list \<Rightarrow> ObjRef \<Rightarrow> nat" where
  "nodeIndexOf allObjects ob =
     fold (\<lambda>i r. if allObjects ! i = ob then i else r) [0..<length allObjects] 0"

definition boxOf :: "Object \<Rightarrow> Rect" where
  "boxOf ob = \<lparr>rectX = X (TopLeft ob), rectY = Y (TopLeft ob), rectW = Width ob, rectH = Height ob\<rparr>"

definition computeBoundingBox :: "Rect list \<Rightarrow> Rect" where
  "computeBoundingBox boxes =
    (if length boxes = 0 then \<lparr>rectX = 0, rectY = 0, rectW = 0, rectH = 0\<rparr>
     else
       (let (minX, minY, maxX, maxY) =
              fold (\<lambda>b (minX, minY, maxX, maxY).
                      (if rectX b < minX then rectX b else minX,
                       if rectY b < minY then rectY b else minY,
                       if Right b > maxX then Right b else maxX,
                       if Bottom b > maxY then Bottom b else maxY))
                   (tl boxes)
                   (rectX (boxes ! 0), rectY (boxes ! 0), Right (boxes ! 0), Bottom (boxes ! 0));
            margin = 40
        in \<lparr>rectX = minX - margin, rectY = minY - margin,
            rectW = (maxX - minX) + 2 * margin, rectH = (maxY - minY) + 2 * margin\<rparr>))"

record Channel =
  chanRect :: Rect
  chanOrientation :: Orientation

text \<open>
  The stages of \<^verbatim>\<open>RouteEdges\<close> that the statements about it do not depend on are
  arguments of the model: port assignment, channel construction, the construction of the
  routing graph, the points each route has after \<^verbatim>\<open>nudgeRoutes\<close> (which writes into the
  points of the routes only), and \<^verbatim>\<open>TraceToShape\<close> of d2graph. None of them returns an
  error in the source.
\<close>

record Stages =
  stAssignPorts :: "Rect list \<Rightarrow> Edge list \<Rightarrow> (ObjRef \<Rightarrow> nat) \<Rightarrow> PortAssignment"
  stFindChannels :: "Rect list \<Rightarrow> Rect \<Rightarrow> Channel list"
  stBuildRoutingGraph :: "Channel list \<Rightarrow> PortAssignment \<Rightarrow> Rect list \<Rightarrow> Rect \<Rightarrow> RoutingGraph"
  stNudgedPoints :: "EdgeRoute list \<Rightarrow> Channel list \<Rightarrow> Rect list \<Rightarrow> nat \<Rightarrow> Point list"
  stTraceToShape :: "(ObjRef \<Rightarrow> Object) \<Rightarrow> Edge \<Rightarrow> Point list \<Rightarrow> Point list"

text \<open>
  Modelled from the spec: \<^verbatim>\<open>label.InsideMiddleCenter.String()\<close> belongs to d2's
  \<^verbatim>\<open>lib/label\<close>, which is not under src; the spec names the position inside-middle-center.
\<close>

definition InsideMiddleCenter_String :: string where
  "InsideMiddleCenter_String = ''INSIDE_MIDDLE_CENTER''"

text \<open>
  The body of the last loop of \<^verbatim>\<open>RouteEdges\<close> for one route. The edges are pointers in
  the source and list positions here, which agree when the pointers are pairwise
  distinct.
\<close>

definition applyRoute ::
  "Stages \<Rightarrow> (ObjRef \<Rightarrow> Object) \<Rightarrow> EdgeRoute \<Rightarrow> Edge list \<Rightarrow> Edge list option" where
  "applyRoute stages heap route edges =
    (if \<not> RouteEdgeIdx route < length edges then None
     else
       (let e = edges ! RouteEdgeIdx route;
            e1 = (if length (Points route) \<ge> 2 then e\<lparr>Route := simplifyRoute (Points route)\<rparr>
                  else e\<lparr>Route := stTraceToShape stages heap e
                                     [Center (heap (Src e)), Center (heap (Dst e))]\<rparr>);
            e2 = (if LabelValue e1 \<noteq> [] then e1\<lparr>LabelPosition := Some InsideMiddleCenter_String\<rparr>
                  else e1)
        in Some (edges[RouteEdgeIdx route := e2])))"

text \<open>
  \<^verbatim>\<open>RouteEdges\<close>. The result is \<open>Some (Inl msg)\<close> when the source returns an error,
  \<open>Some (Inr edges')\<close> when it returns \<^verbatim>\<open>nil\<close>, with the edges as the call leaves them,
  and \<open>None\<close> when it panics or does not return. Objects are only read.
\<close>

definition RouteEdges ::
  "Stages \<Rightarrow> edgePriority sorter \<Rightarrow> (real \<Rightarrow> real) \<Rightarrow> nat list \<Rightarrow> (ObjRef \<Rightarrow> Object) \<Rightarrow> Edge list \<Rightarrow>
   (string + Edge list) option" where
  "RouteEdges stages srt rnd adjOrder heap edges =
    (if length edges = 0 then Some (Inr edges)
     else
       (let allObjects = collectObjects heap edges
        in if length allObjects = 0 then Some (Inl ''grid router: no objects found'')
           else
             (let nodeIndex = nodeIndexOf allObjects;
                  boxes = map (\<lambda>ob. boxOf (heap ob)) allObjects;
                  bbox = computeBoundingBox boxes;
                  ports = stAssignPorts stages boxes edges nodeIndex;
                  channels = stFindChannels stages boxes bbox;
                  rg = stBuildRoutingGraph stages channels ports boxes bbox
              in case routeAllEdges srt rnd adjOrder rg ports edges of
                   None \<Rightarrow> None
                 | Some rs \<Rightarrow>
                     (let nudged = map (\<lambda>k. (rs ! k)\<lparr>Points := stNudgedPoints stages rs channels boxes k\<rparr>)
                                       [0..<length rs]
                      in map_option Inr
                           (fold (\<lambda>route r. Option.bind r (applyRoute stages heap route))
                                 nudged (Some edges))))))"


text \<open>
  Vocabulary of the statements about the routing order: whether the ports of edge \<open>k\<close>
  are a direct face pair, and the Manhattan distance between them.
\<close>

definition directPair :: "PortAssignment \<Rightarrow> nat \<Rightarrow> bool" where
  "directPair ports k = sameAxis (SrcPorts ports ! k) (DstPorts ports ! k)"

definition portDistance :: "PortAssignment \<Rightarrow> nat \<Rightarrow> real" where
  "portDistance ports k =
     \<bar>X (Pos (SrcPorts ports ! k)) - X (Pos (DstPorts ports ! k))\<bar> +
     \<bar>Y (Pos (SrcPorts ports ! k)) - Y (Pos (DstPorts ports ! k))\<bar>"

text \<open>Vocabulary of the statements about labels: what the last loop does to one edge.\<close>

definition labelled :: "Edge \<Rightarrow> Edge \<Rightarrow> bool" where
  "labelled e e' =
     (LabelValue e' = LabelValue e \<and>
      LabelPosition e' = (if LabelValue e \<noteq> [] then Some InsideMiddleCenter_String
                          else LabelPosition e))"

text \<open>
  A second sort within the contract of \<^verbatim>\<open>sort.Slice\<close>. Up to 12 elements it is the
  insertion sort; on more it takes the element at index \<open>2 * (n div 4)\<close> as pivot, swaps
  it to the front, splits the rest into the elements before the pivot and the others, and
  sorts both parts by insertion.
\<close>

definition pivotSort :: "'a sorter" where
  "pivotSort lt xs =
    (if length xs \<le> 12 then insertionSort lt xs
     else
       (let ys = swapAt xs 0 (2 * (length xs div 4));
            p = ys ! 0;
            r = tl ys
        in insertionSort lt (filter (\<lambda>x. lt x p) r) @ p # insertionSort lt (filter (\<lambda>x. \<not> lt x p) r)))"

text \<open>
  Concrete inputs: thirteen edges from Bottom to Top ports, the first two 100 long and
  the others 200 long; and two edges between two objects, routed through the square
  graph.
\<close>

definition ce6_ports :: PortAssignment where
  "ce6_ports =
     \<lparr>SrcPorts = map (\<lambda>i. \<lparr>NodeIdx = 2 * i, EdgeIdx = i, Side = DirBottom,
                             Pos = \<lparr>X = 50 * real i, Y = 0\<rparr>, IsSrc = True\<rparr>) [0..<13],
      DstPorts = map (\<lambda>i. \<lparr>NodeIdx = 2 * i + 1, EdgeIdx = i, Side = DirTop,
                             Pos = \<lparr>X = 50 * real i, Y = (if i < 2 then 100 else 200)\<rparr>,
                             IsSrc = False\<rparr>) [0..<13]\<rparr>"

definition ce6_edges :: "Edge list" where
  "ce6_edges = map (\<lambda>i. \<lparr>Src = 2 * i, Dst = 2 * i + 1, LabelValue = [], LabelPosition = None,
                           Route = []\<rparr>) [0..<13]"

definition w6_ports :: PortAssignment where
  "w6_ports =
     \<lparr>SrcPorts = [\<lparr>NodeIdx = 0, EdgeIdx = 0, Side = DirRight, Pos = \<lparr>X = 0, Y = 0\<rparr>, IsSrc = True\<rparr>,
                  \<lparr>NodeIdx = 0, EdgeIdx = 1, Side = DirBottom, Pos = \<lparr>X = 0, Y = 0\<rparr>, IsSrc = True\<rparr>,
                  \<lparr>NodeIdx = 0, EdgeIdx = 2, Side = DirBottom, Pos = \<lparr>X = 0, Y = 0\<rparr>, IsSrc = True\<rparr>],
      DstPorts = [\<lparr>NodeIdx = 1, EdgeIdx = 0, Side = DirTop, Pos = \<lparr>X = 300, Y = 300\<rparr>, IsSrc = False\<rparr>,
                  \<lparr>NodeIdx = 2, EdgeIdx = 1, Side = DirTop, Pos = \<lparr>X = 0, Y = 100\<rparr>, IsSrc = False\<rparr>,
                  \<lparr>NodeIdx = 3, EdgeIdx = 2, Side = DirTop, Pos = \<lparr>X = 0, Y = 200\<rparr>, IsSrc = False\<rparr>]\<rparr>"

definition w6_edges :: "Edge list" where
  "w6_edges = map (\<lambda>i. \<lparr>Src = 0, Dst = i + 1, LabelValue = [], LabelPosition = None, Route = []\<rparr>)
                  [0..<3]"

definition w10_heap :: "ObjRef \<Rightarrow> Object" where
  "w10_heap r =
     (if r = 0
      then \<lparr>TopLeft = \<lparr>X = - 20, Y = - 20\<rparr>, Width = 20, Height = 20, Parent = None, ChildrenArray = []\<rparr>
      else \<lparr>TopLeft = \<lparr>X = 10, Y = 10\<rparr>, Width = 20, Height = 20, Parent = None, ChildrenArray = []\<rparr>)"

definition w10_stages :: Stages where
  "w10_stages =
     \<lparr>stAssignPorts = (\<lambda>boxes edges nodeIndex.
         \<lparr>SrcPorts = map (\<lambda>e. \<lparr>NodeIdx = nodeIndex (Src e), EdgeIdx = 0, Side = DirBottom,
                                 Pos = \<lparr>X = 0, Y = 0\<rparr>, IsSrc = True\<rparr>) edges,
          DstPorts = map (\<lambda>e. \<lparr>NodeIdx = nodeIndex (Dst e), EdgeIdx = 0, Side = DirLeft,
                                 Pos = \<lparr>X = 10, Y = 10\<rparr>, IsSrc = False\<rparr>) edges\<rparr>),
      stFindChannels = (\<lambda>boxes bbox. []),
      stBuildRoutingGraph = (\<lambda>channels ports boxes bbox. w2_graph),
      stNudgedPoints = (\<lambda>rs channels boxes k. Points (rs ! k)),
      stTraceToShape = (\<lambda>heap e pts. pts)\<rparr>"

definition w10_edges :: "Edge list" where
  "w10_edges =
     [\<lparr>Src = 0, Dst = 1, LabelValue = ''a'', LabelPosition = Some ''OUTSIDE_TOP_CENTER'', Route = []\<rparr>,
      \<lparr>Src = 0, Dst = 1, LabelValue = [], LabelPosition = Some ''OUTSIDE_TOP_CENTER'', Route = []\<rparr>]"

definition w10_routed :: "Edge list" where
  "w10_routed =
     [\<lparr>Src = 0, Dst = 1, LabelValue = ''a'', LabelPosition = Some ''INSIDE_MIDDLE_CENTER'',
       Route = [\<lparr>X = 0, Y = 0\<rparr>, \<lparr>X = 0, Y = 10\<rparr>, \<lparr>X = 10, Y = 10\<rparr>]\<rparr>,
      \<lparr>Src = 0, Dst = 1, LabelValue = [], LabelPosition = Some ''OUTSIDE_TOP_CENTER'',
       Route = [\<lparr>X = 0, Y = 0\<rparr>, \<lparr>X = 0, Y = 10\<rparr>, \<lparr>X = 10, Y = 10\<rparr>]\<rparr>]"

section \<open>Grid placement (d2wueortho/layout.go)\<close>

text \<open>
  A grid cell is a pair of Go ints (unbounded here). The graph is read through the
  children of its root, the two end points of its edges and the direction attribute of
  the root. The pixel geometry that \<^verbatim>\<open>gridPlacement\<close> also computes (cell sizes, prefix
  sums, \<^verbatim>\<open>TopLeft\<close> of the objects) reads the placement and never writes it; it is left
  out, and \<open>gridInfo\<close> keeps the two maps between nodes and cells.
\<close>

record gridCell =
  row :: int
  col :: int

record Graph =
  RootChildren :: "ObjRef list"
  GraphEdges :: "(ObjRef \<times> ObjRef) list"
  RootDirection :: string

record gridInfo =
  placement :: "nat \<rightharpoonup> gridCell"
  occupied :: "gridCell \<rightharpoonup> nat"

definition objIndex :: "ObjRef list \<Rightarrow> ObjRef \<rightharpoonup> nat" where
  "objIndex objects = fold (\<lambda>i m. m(objects ! i \<mapsto> i)) [0..<length objects] Map.empty"

text \<open>The adjacency lists and the sets \<^verbatim>\<open>outgoing[i]\<close>, one edge at a time.\<close>

definition addEdge ::
  "(ObjRef \<rightharpoonup> nat) \<Rightarrow> ObjRef \<times> ObjRef \<Rightarrow> (nat \<Rightarrow> nat list) \<times> (nat \<Rightarrow> nat set)
   \<Rightarrow> (nat \<Rightarrow> nat list) \<times> (nat \<Rightarrow> nat set)" where
  "addEdge oi e ao =
    (case oi (fst e) of
       None \<Rightarrow> ao
     | Some si \<Rightarrow>
        (case oi (snd e) of
           None \<Rightarrow> ao
         | Some di \<Rightarrow>
            if si \<noteq> di
            then (let adj1 = (fst ao)(si := fst ao si @ [di]);
                      adj2 = adj1(di := adj1 di @ [si])
                  in (adj2, (snd ao)(si := insert di (snd ao si))))
            else ao))"

fun dedupNeighbors :: "nat list \<Rightarrow> nat set \<Rightarrow> nat list" where
  "dedupNeighbors [] seen = []"
| "dedupNeighbors (nb # rest) seen =
     (if nb \<in> seen then dedupNeighbors rest seen
      else nb # dedupNeighbors rest (insert nb seen))"

definition buildAdj :: "Graph \<Rightarrow> (nat \<Rightarrow> nat list) \<times> (nat \<Rightarrow> nat set)" where
  "buildAdj g =
    (let ao = fold (addEdge (objIndex (RootChildren g))) (GraphEdges g) (\<lambda>i. [], \<lambda>i. {})
     in (\<lambda>i. dedupNeighbors (fst ao i) {}, snd ao))"

definition bfsStart :: "nat \<Rightarrow> (nat \<Rightarrow> nat list) \<Rightarrow> nat" where
  "bfsStart n adj = fold (\<lambda>i start. if length (adj i) > length (adj start) then i else start) [1..<n] 0"

definition bfsDirs :: "Graph \<Rightarrow> gridCell list" where
  "bfsDirs g =
    (if RootDirection g = ''down''
       then [\<lparr>row = 1, col = 0\<rparr>, \<lparr>row = 0, col = 1\<rparr>, \<lparr>row = - 1, col = 0\<rparr>, \<lparr>row = 0, col = - 1\<rparr>]
     else if RootDirection g = ''up''
       then [\<lparr>row = - 1, col = 0\<rparr>, \<lparr>row = 0, col = 1\<rparr>, \<lparr>row = 1, col = 0\<rparr>, \<lparr>row = 0, col = - 1\<rparr>]
     else if RootDirection g = ''left''
       then [\<lparr>row = 0, col = - 1\<rparr>, \<lparr>row = 1, col = 0\<rparr>, \<lparr>row = 0, col = 1\<rparr>, \<lparr>row = - 1, col = 0\<rparr>]
     else [\<lparr>row = 0, col = 1\<rparr>, \<lparr>row = 1, col = 0\<rparr>, \<lparr>row = 0, col = - 1\<rparr>, \<lparr>row = - 1, col = 0\<rparr>])"

definition reverseDirs :: "gridCell list \<Rightarrow> gridCell list" where
  "reverseDirs dirs =
    (if length dirs < 1 then dirs
     else \<lparr>row = - row (dirs ! 0), col = - col (dirs ! 0)\<rparr> # tl dirs)"

text \<open>
  \<^verbatim>\<open>int(math.Ceil(math.Sqrt(float64(n))))\<close>, at least 2. The square root is the real
  one: the rounded one has the same ceiling as long as \<open>n\<close> is below \<open>2 ^ 52\<close>.
\<close>

definition maxColsOf :: "nat \<Rightarrow> int" where
  "maxColsOf n = (let maxCols = \<lceil>sqrt (real n)\<rceil> in if maxCols < 2 then 2 else maxCols)"

text \<open>
  The offsets \<open>(dr, dc)\<close> that the two nested loops of \<^verbatim>\<open>findBestCell\<close> visit at one
  radius, in loop order, and the offsets of all the radii from 2 to 20.
\<close>

definition ring :: "int \<Rightarrow> (int \<times> int) list" where
  "ring radius =
     filter (\<lambda>d. \<not> (\<bar>fst d\<bar> \<noteq> radius \<and> \<bar>snd d\<bar> \<noteq> radius))
            (List.product [- radius..radius] [- radius..radius])"

definition spiral :: "(int \<times> int) list" where
  "spiral = concat (map ring [2..20])"

definition cellAt :: "gridCell \<Rightarrow> int \<times> int \<Rightarrow> gridCell" where
  "cellAt center d = \<lparr>row = row center + fst d, col = col center + snd d\<rparr>"

definition findBestCell :: "gridCell \<Rightarrow> gridCell set \<Rightarrow> gridCell list \<Rightarrow> int \<Rightarrow> gridCell" where
  "findBestCell center occ dirs maxCols =
    (let near = map (\<lambda>d. \<lparr>row = row center + row d, col = col center + col d\<rparr>) dirs;
         far = map (cellAt center) spiral
     in case find (\<lambda>candidate. candidate \<notin> occ \<and> \<bar>col candidate\<bar> < maxCols) near of
          Some candidate \<Rightarrow> candidate
        | None \<Rightarrow>
       (case find (\<lambda>candidate. candidate \<notin> occ) near of
          Some candidate \<Rightarrow> candidate
        | None \<Rightarrow>
       (case find (\<lambda>candidate. candidate \<notin> occ \<and> \<bar>col candidate\<bar> < maxCols) far of
          Some candidate \<Rightarrow> candidate
        | None \<Rightarrow>
       (case find (\<lambda>candidate. candidate \<notin> occ) far of
          Some candidate \<Rightarrow> candidate
        | None \<Rightarrow> \<lparr>row = row center, col = col center + 100\<rparr>))))"

definition findFirstFree :: "gridCell set \<Rightarrow> gridCell" where
  "findFirstFree occ =
    (case find (\<lambda>cell. cell \<notin> occ)
            (concat (map (\<lambda>radius. map (\<lambda>d. \<lparr>row = fst d, col = snd d\<rparr>)
                                      (List.product [- radius..radius] [- radius..radius]))
                         [0..50])) of
       Some cell \<Rightarrow> cell
     | None \<Rightarrow> \<lparr>row = 0, col = int (card occ)\<rparr>)"

text \<open>
  The breadth-first placement. \<^verbatim>\<open>placement\<close> is a Go map read with the zero cell for a
  missing key, a total function here; \<^verbatim>\<open>occupied\<close> is the set of its true keys. The
  comparison function of the neighbour sort reads the degrees and \<^verbatim>\<open>outgoing[cur]\<close>.
\<close>

record BfsState =
  bfsPlacement :: "nat \<Rightarrow> gridCell"
  bfsOccupied :: "gridCell set"
  bfsVisited :: "nat set"
  bfsQueue :: "nat list"

definition neighborLess :: "(nat \<Rightarrow> nat list) \<Rightarrow> nat set \<Rightarrow> nat \<Rightarrow> nat \<Rightarrow> bool" where
  "neighborLess adj out a b =
    (if length (adj a) \<noteq> length (adj b) then length (adj a) > length (adj b)
     else if (a \<in> out) \<noteq> (b \<in> out) then a \<in> out
     else a < b)"

definition placeNeighbor ::
  "(nat \<Rightarrow> nat set) \<Rightarrow> gridCell list \<Rightarrow> int \<Rightarrow> nat \<Rightarrow> gridCell \<Rightarrow> nat \<Rightarrow> BfsState \<Rightarrow> BfsState" where
  "placeNeighbor outgoing dirs maxCols cur curCell nb st =
    (if nb \<in> bfsVisited st then st
     else
       (let preferredDirs = (if nb \<in> outgoing cur then dirs else reverseDirs dirs);
            cell = findBestCell curCell (bfsOccupied st) preferredDirs maxCols
        in st\<lparr>bfsVisited := insert nb (bfsVisited st),
               bfsPlacement := (bfsPlacement st)(nb := cell),
               bfsOccupied := insert cell (bfsOccupied st),
               bfsQueue := bfsQueue st @ [nb]\<rparr>))"

definition bfsStep ::
  "nat sorter \<Rightarrow> (nat \<Rightarrow> nat list) \<Rightarrow> (nat \<Rightarrow> nat set) \<Rightarrow> gridCell list \<Rightarrow> int \<Rightarrow> nat
   \<Rightarrow> BfsState \<Rightarrow> BfsState" where
  "bfsStep srt adj outgoing dirs maxCols cur st =
    (let curCell = bfsPlacement st cur;
         neighbors = filter (\<lambda>nb. nb \<notin> bfsVisited st) (adj cur);
         sorted = srt (neighborLess adj (outgoing cur)) neighbors
     in fold (placeNeighbor outgoing dirs maxCols cur curCell) sorted st)"

partial_function (option) bfsLoop ::
  "nat sorter \<Rightarrow> (nat \<Rightarrow> nat list) \<Rightarrow> (nat \<Rightarrow> nat set) \<Rightarrow> gridCell list \<Rightarrow> int
   \<Rightarrow> BfsState \<Rightarrow> BfsState option" where
  "bfsLoop srt adj outgoing dirs maxCols st =
    (case bfsQueue st of
       [] \<Rightarrow> Some st
     | cur # rest \<Rightarrow>
         bfsLoop srt adj outgoing dirs maxCols
           (bfsStep srt adj outgoing dirs maxCols cur (st\<lparr>bfsQueue := rest\<rparr>)))"

declare bfsLoop.simps [code]

definition placeDisconnected :: "nat \<Rightarrow> BfsState \<Rightarrow> BfsState" where
  "placeDisconnected i st =
    (if i \<notin> bfsVisited st
     then (let cell = findFirstFree (bfsOccupied st)
           in st\<lparr>bfsPlacement := (bfsPlacement st)(i := cell),
                  bfsOccupied := insert cell (bfsOccupied st),
                  bfsVisited := insert i (bfsVisited st)\<rparr>)
     else st)"

text \<open>
  \<^verbatim>\<open>localImprove\<close>: the cost of an edge between two cells, the total cost, the move of
  one node to a free adjacent cell and the swap of two of the first 30 nodes.
\<close>

definition between :: "int \<Rightarrow> int \<Rightarrow> int list" where
  "between a b = [min a b + 1..max a b - 1]"

definition costForEdge :: "gridCell set \<Rightarrow> gridCell \<Rightarrow> gridCell \<Rightarrow> int" where
  "costForEdge occ ci cj =
    (let dist = \<bar>row ci - row cj\<bar> + \<bar>col ci - col cj\<bar>
     in if dist \<le> 1 then dist
        else if row ci = row cj
          then dist + 4 * int (length (filter (\<lambda>c. \<lparr>row = row ci, col = c\<rparr> \<in> occ)
                                              (between (col ci) (col cj))))
        else if col ci = col cj
          then dist + 4 * int (length (filter (\<lambda>r. \<lparr>row = r, col = col ci\<rparr> \<in> occ)
                                              (between (row ci) (row cj))))
        else
          (let corner1blocked =
                 (list_ex (\<lambda>c. \<lparr>row = row ci, col = c\<rparr> \<in> occ) (between (col ci) (col cj)) \<or>
                  list_ex (\<lambda>r. \<lparr>row = r, col = col cj\<rparr> \<in> occ) (between (row ci) (row cj)));
               corner2blocked =
                 (list_ex (\<lambda>r. \<lparr>row = r, col = col ci\<rparr> \<in> occ) (between (row ci) (row cj)) \<or>
                  list_ex (\<lambda>c. \<lparr>row = row cj, col = c\<rparr> \<in> occ) (between (col ci) (col cj)))
           in if corner1blocked \<and> corner2blocked then dist + 4 else dist))"

definition totalCost :: "nat \<Rightarrow> (nat \<Rightarrow> nat list) \<Rightarrow> (nat \<Rightarrow> gridCell) \<Rightarrow> gridCell set \<Rightarrow> int" where
  "totalCost n adj pl occ =
     fold (\<lambda>i sum. fold (\<lambda>nb sum. if nb > i then sum + costForEdge occ (pl i) (pl nb) else sum)
                         (adj i) sum)
          [0..<n] 0"

record ImproveState =
  impPlacement :: "nat \<Rightarrow> gridCell"
  impOccupied :: "gridCell set"
  impBaseline :: int
  impImproved :: bool

fun tryMoves ::
  "nat \<Rightarrow> (nat \<Rightarrow> nat list) \<Rightarrow> nat \<Rightarrow> gridCell \<Rightarrow> gridCell list \<Rightarrow> ImproveState \<Rightarrow> ImproveState" where
  "tryMoves n adj i origCell [] st = st"
| "tryMoves n adj i origCell (d # ds) st =
    (let candidate = \<lparr>row = row origCell + row d, col = col origCell + col d\<rparr>
     in if candidate \<in> impOccupied st then tryMoves n adj i origCell ds st
        else
          (let occ1 = insert candidate (impOccupied st - {origCell});
               pl1 = (impPlacement st)(i := candidate);
               newCost = totalCost n adj pl1 occ1
           in if newCost < impBaseline st
              then st\<lparr>impPlacement := pl1, impOccupied := occ1,
                      impBaseline := newCost, impImproved := True\<rparr>
              else tryMoves n adj i origCell ds
                     (st\<lparr>impPlacement := pl1(i := origCell),
                         impOccupied := insert origCell (occ1 - {candidate})\<rparr>)))"

definition moveDirs :: "gridCell list" where
  "moveDirs = [\<lparr>row = 0, col = 1\<rparr>, \<lparr>row = 1, col = 0\<rparr>, \<lparr>row = 0, col = - 1\<rparr>, \<lparr>row = - 1, col = 0\<rparr>]"

definition moveNode :: "nat \<Rightarrow> (nat \<Rightarrow> nat list) \<Rightarrow> nat \<Rightarrow> ImproveState \<Rightarrow> ImproveState" where
  "moveNode n adj i st = tryMoves n adj i (impPlacement st i) moveDirs st"

definition swapPair :: "nat \<Rightarrow> (nat \<Rightarrow> nat list) \<Rightarrow> nat \<times> nat \<Rightarrow> ImproveState \<Rightarrow> ImproveState" where
  "swapPair n adj ij st =
    (let i = fst ij; j = snd ij;
         ci = impPlacement st i; cj = impPlacement st j
     in if ci = cj then st
        else
          (let pl1 = (impPlacement st)(i := cj, j := ci);
               newCost = totalCost n adj pl1 (impOccupied st)
           in if newCost < impBaseline st
              then st\<lparr>impPlacement := pl1, impBaseline := newCost, impImproved := True\<rparr>
              else st))"

definition swapPairs :: "nat \<Rightarrow> (nat \<times> nat) list" where
  "swapPairs n = concat (map (\<lambda>i. map (\<lambda>j. (i, j)) [i + 1..<min n 30]) [0..<min n 30])"

fun improveIters ::
  "nat \<Rightarrow> nat \<Rightarrow> (nat \<Rightarrow> nat list) \<Rightarrow> (nat \<Rightarrow> gridCell) \<times> gridCell set
   \<Rightarrow> (nat \<Rightarrow> gridCell) \<times> gridCell set" where
  "improveIters 0 n adj po = po"
| "improveIters (Suc k) n adj po =
    (let st0 = \<lparr>impPlacement = fst po, impOccupied = snd po,
                impBaseline = totalCost n adj (fst po) (snd po), impImproved = False\<rparr>;
         st1 = fold (moveNode n adj) [0..<n] st0;
         st2 = fold (swapPair n adj) (swapPairs n) st1
     in if \<not> impImproved st2 then (impPlacement st2, impOccupied st2)
        else improveIters k n adj (impPlacement st2, impOccupied st2))"

definition localImprove ::
  "nat \<Rightarrow> (nat \<Rightarrow> nat list) \<Rightarrow> nat \<Rightarrow> (nat \<Rightarrow> gridCell) \<times> gridCell set
   \<Rightarrow> (nat \<Rightarrow> gridCell) \<times> gridCell set" where
  "localImprove n adj maxIters po = (if n \<le> 2 then po else improveIters maxIters n adj po)"

text \<open>
  \<^verbatim>\<open>gridPlacement\<close>. After the loop over the disconnected nodes every index below \<open>n\<close> is
  a key of \<^verbatim>\<open>placement\<close>, so the loop over the map that finds the least row and column
  is a loop over the indices. \<open>None\<close> is a breadth-first loop that does not end.
\<close>

definition gridPlacement :: "nat sorter \<Rightarrow> Graph \<Rightarrow> gridInfo option" where
  "gridPlacement srt g =
    (let objects = RootChildren g; n = length objects
     in if n = 0 then Some \<lparr>placement = Map.empty, occupied = Map.empty\<rparr>
        else
          (let adj = fst (buildAdj g); outgoing = snd (buildAdj g);
               start = bfsStart n adj;
               dirs = bfsDirs g;
               maxCols = maxColsOf n;
               origin = \<lparr>row = 0, col = 0\<rparr>
           in case bfsLoop srt adj outgoing dirs maxCols
                     \<lparr>bfsPlacement = (\<lambda>i. origin)(start := origin), bfsOccupied = {origin},
                      bfsVisited = {start}, bfsQueue = [start]\<rparr> of
                None \<Rightarrow> None
              | Some st \<Rightarrow>
                 (let st1 = fold placeDisconnected [0..<n] st;
                      pl = fst (localImprove n adj 5 (bfsPlacement st1, bfsOccupied st1));
                      minRow = fold (\<lambda>i m. if row (pl i) < m then row (pl i) else m) [0..<n] 2147483647;
                      minCol = fold (\<lambda>i m. if col (pl i) < m then col (pl i) else m) [0..<n] 2147483647;
                      normalized = (\<lambda>i. \<lparr>row = row (pl i) - minRow, col = col (pl i) - minCol\<rparr>)
                  in Some \<lparr>placement = (\<lambda>i. if i < n then Some (normalized i) else None),
                           occupied = fold (\<lambda>i m. m(normalized i \<mapsto> i)) [0..<n] Map.empty\<rparr>)))"

text \<open>A hub with an edge to each of \<open>m\<close> other nodes.\<close>

definition starGraph :: "nat \<Rightarrow> Graph" where
  "starGraph m =
     \<lparr>RootChildren = [0..<m + 1], GraphEdges = map (\<lambda>i. (0, i)) [1..<m + 1], RootDirection = []\<rparr>"


section \<open>Theorems: port alignment of the corridor router\<close>

lemma alignStep_Some:
  assumes "alignStep boxes i pa = Some pa'"
  shows "length (SrcPorts pa') = length (SrcPorts pa)"
    and "length (DstPorts pa') = length (DstPorts pa)"
    and "j \<noteq> i \<Longrightarrow> SrcPorts pa' ! j = SrcPorts pa ! j"
    and "j \<noteq> i \<Longrightarrow> DstPorts pa' ! j = DstPorts pa ! j"
    and "(SrcPorts pa' ! i, DstPorts pa' ! i) =
          alignPair (boxes ! NodeIdx (SrcPorts pa ! i)) (boxes ! NodeIdx (DstPorts pa ! i))
            (SrcPorts pa ! i) (DstPorts pa ! i)"
  using assms
  by (auto simp: alignStep_def Let_def split: if_splits prod.splits)

lemma align_fold:
  "fold (\<lambda>i r. Option.bind r (alignStep boxes i)) [0..<b] (Some pa) = Some pa' \<Longrightarrow>
   length (SrcPorts pa') = length (SrcPorts pa) \<and>
   length (DstPorts pa') = length (DstPorts pa) \<and>
   (\<forall>j\<ge>b. SrcPorts pa' ! j = SrcPorts pa ! j \<and> DstPorts pa' ! j = DstPorts pa ! j) \<and>
   (\<forall>j<b. (SrcPorts pa' ! j, DstPorts pa' ! j) =
          alignPair (boxes ! NodeIdx (SrcPorts pa ! j)) (boxes ! NodeIdx (DstPorts pa ! j))
            (SrcPorts pa ! j) (DstPorts pa ! j))"
proof (induction b arbitrary: pa')
  case 0
  then show ?case by simp
next
  case (Suc b)
  from Suc.prems obtain pm where
    pm: "fold (\<lambda>i r. Option.bind r (alignStep boxes i)) [0..<b] (Some pa) = Some pm"
    and st: "alignStep boxes b pm = Some pa'"
    by (auto simp: bind_eq_Some_conv)
  note ih = Suc.IH [OF pm]
  note s = alignStep_Some [OF st]
  show ?case
  proof (intro conjI allI impI)
    show "length (SrcPorts pa') = length (SrcPorts pa)" using ih s by simp
    show "length (DstPorts pa') = length (DstPorts pa)" using ih s by simp
  next
    fix j assume "Suc b \<le> j"
    then show "SrcPorts pa' ! j = SrcPorts pa ! j" using ih s(3)[of j] by simp
  next
    fix j assume "Suc b \<le> j"
    then show "DstPorts pa' ! j = DstPorts pa ! j" using ih s(4)[of j] by simp
  next
    fix j assume j: "j < Suc b"
    show "(SrcPorts pa' ! j, DstPorts pa' ! j) =
          alignPair (boxes ! NodeIdx (SrcPorts pa ! j)) (boxes ! NodeIdx (DstPorts pa ! j))
            (SrcPorts pa ! j) (DstPorts pa ! j)"
    proof (cases "j = b")
      case True
      then show ?thesis using s(5) ih by simp
    next
      case False
      with j have "j < b" by simp
      then show ?thesis using ih s(3)[of j] s(4)[of j] False by simp
    qed
  qed
qed

lemma alignNearlyAlignedPorts_pair:
  assumes "alignNearlyAlignedPorts boxes pa = Some pa'" and "i < length (SrcPorts pa)"
  shows "(SrcPorts pa' ! i, DstPorts pa' ! i) =
          alignPair (boxes ! NodeIdx (SrcPorts pa ! i)) (boxes ! NodeIdx (DstPorts pa ! i))
            (SrcPorts pa ! i) (DstPorts pa ! i)"
proof -
  have "fold (\<lambda>i r. Option.bind r (alignStep boxes i)) [0..<length (SrcPorts pa)] (Some pa) = Some pa'"
    using assms(1) by (simp add: alignNearlyAlignedPorts_def)
  from align_fold [OF this] assms(2) show ?thesis by simp
qed

lemma alignVertical_eq:
  assumes "(Side src = DirBottom \<and> Side dst = DirTop) \<or> (Side src = DirTop \<and> Side dst = DirBottom)"
    and "max (Left srcBox) (Left dstBox) < min (Right srcBox) (Right dstBox)"
  shows "alignVertical srcBox dstBox src dst =
     (if innerX srcBox (overlapMidX srcBox dstBox) \<and> innerX dstBox (overlapMidX srcBox dstBox)
      then (src\<lparr>Pos := (Pos src)\<lparr>X := overlapMidX srcBox dstBox\<rparr>\<rparr>,
            dst\<lparr>Pos := (Pos dst)\<lparr>X := overlapMidX srcBox dstBox\<rparr>\<rparr>)
      else (src, dst))"
  using assms unfolding alignVertical_def innerX_def overlapMidX_def Let_def
  by (simp only: if_True conj_assoc)

lemma alignHorizontal_id:
  assumes "Side src = DirBottom \<or> Side src = DirTop"
  shows "alignHorizontal srcBox dstBox src dst = (src, dst)"
  using assms unfolding alignHorizontal_def by auto

lemma alignHorizontal_eq:
  assumes "(Side src = DirRight \<and> Side dst = DirLeft) \<or> (Side src = DirLeft \<and> Side dst = DirRight)"
    and "max (Top srcBox) (Top dstBox) < min (Bottom srcBox) (Bottom dstBox)"
  shows "alignHorizontal srcBox dstBox src dst =
     (if innerY srcBox (overlapMidY srcBox dstBox) \<and> innerY dstBox (overlapMidY srcBox dstBox)
      then (src\<lparr>Pos := (Pos src)\<lparr>Y := overlapMidY srcBox dstBox\<rparr>\<rparr>,
            dst\<lparr>Pos := (Pos dst)\<lparr>Y := overlapMidY srcBox dstBox\<rparr>\<rparr>)
      else (src, dst))"
  using assms unfolding alignHorizontal_def innerY_def overlapMidY_def Let_def
  by (simp only: if_True conj_assoc)

lemma alignVertical_id:
  assumes "Side src = DirRight \<or> Side src = DirLeft"
  shows "alignVertical srcBox dstBox src dst = (src, dst)"
  using assms unfolding alignVertical_def by auto

lemma alignPair_vertical:
  assumes "(Side src = DirBottom \<and> Side dst = DirTop) \<or> (Side src = DirTop \<and> Side dst = DirBottom)"
    and "max (Left srcBox) (Left dstBox) < min (Right srcBox) (Right dstBox)"
  shows "alignPair srcBox dstBox src dst =
     (if innerX srcBox (overlapMidX srcBox dstBox) \<and> innerX dstBox (overlapMidX srcBox dstBox)
      then (src\<lparr>Pos := (Pos src)\<lparr>X := overlapMidX srcBox dstBox\<rparr>\<rparr>,
            dst\<lparr>Pos := (Pos dst)\<lparr>X := overlapMidX srcBox dstBox\<rparr>\<rparr>)
      else (src, dst))"
proof -
  have s: "Side src = DirBottom \<or> Side src = DirTop" using assms(1) by blast
  show ?thesis
    unfolding alignPair_def alignVertical_eq [OF assms]
    using s by (simp add: alignHorizontal_id)
qed

lemma alignPair_horizontal:
  assumes "(Side src = DirRight \<and> Side dst = DirLeft) \<or> (Side src = DirLeft \<and> Side dst = DirRight)"
    and "max (Top srcBox) (Top dstBox) < min (Bottom srcBox) (Bottom dstBox)"
  shows "alignPair srcBox dstBox src dst =
     (if innerY srcBox (overlapMidY srcBox dstBox) \<and> innerY dstBox (overlapMidY srcBox dstBox)
      then (src\<lparr>Pos := (Pos src)\<lparr>Y := overlapMidY srcBox dstBox\<rparr>\<rparr>,
            dst\<lparr>Pos := (Pos dst)\<lparr>Y := overlapMidY srcBox dstBox\<rparr>\<rparr>)
      else (src, dst))"
proof -
  have s: "Side src = DirRight \<or> Side src = DirLeft" using assms(1) by blast
  show ?thesis
    unfolding alignPair_def alignVertical_id [OF s]
    using alignHorizontal_eq [OF assms] by simp
qed




section \<open>Theorems: port spreading of the standalone router\<close>

lemma mset_insertSorted: "mset (insertSorted lt x ys) = add_mset x (mset ys)"
  by (induction ys) auto

lemma mset_foldl_insertSorted:
  "mset (foldl (\<lambda>acc x. insertSorted lt x acc) acc xs) = mset acc + mset xs"
  by (induction xs arbitrary: acc) (auto simp: mset_insertSorted)

lemma mset_insertionSort: "mset (insertionSort lt xs) = mset xs"
  by (simp add: insertionSort_def mset_foldl_insertSorted)

lemma facePoint_eq:
  "facePoint ob f ((real i + 1) / (real n + 1)) 12 8 n =
     (case f of
        faceTop \<Rightarrow> \<lparr>X = X (TopLeft ob) + spreadAlong (Width ob) i n, Y = Y (TopLeft ob)\<rparr>
      | faceBottom \<Rightarrow> \<lparr>X = X (TopLeft ob) + spreadAlong (Width ob) i n, Y = Y (TopLeft ob) + Height ob\<rparr>
      | faceLeft \<Rightarrow> \<lparr>X = X (TopLeft ob), Y = Y (TopLeft ob) + spreadAlong (Height ob) i n\<rparr>
      | faceRight \<Rightarrow> \<lparr>X = X (TopLeft ob) + Width ob, Y = Y (TopLeft ob) + spreadAlong (Height ob) i n\<rparr>)"
  by (cases f) (simp_all add: facePoint_def spreadAlong_def Let_def)

lemma sortAndSpreadPorts_nth:
  assumes perm: "mset (srt (portLess heap f) ports) = mset ports"
    and same: "\<forall>p \<in> set ports. obj p = ob"
    and i: "i < length ports"
  shows "pos (sortAndSpreadPorts srt heap ports f ! i) =
           Some (facePoint (heap ob) f ((real i + 1) / (real (length ports) + 1)) 12 8 (length ports))"
proof -
  let ?s = "srt (portLess heap f) ports"
  have len: "length ?s = length ports" using perm by (metis size_mset)
  have set: "set ?s = set ports" using perm by (metis set_mset_mset)
  have ne: "length ports \<noteq> 0" using i by linarith
  have "0 < length ?s" using len i by linarith
  then have "?s ! 0 \<in> set ?s" by (rule nth_mem)
  then have ob: "obj (?s ! 0) = ob" using same set by simp
  show ?thesis using i len ne ob
    by (simp add: sortAndSpreadPorts_def Let_def nth_enumerate_eq)
qed




section \<open>Theorems: route simplification and nudging\<close>

lemma dedupFrom_hd: "hd (p # dedupFrom p ps) = p" by simp

lemma simplifyRoute_hd: "points \<noteq> [] \<Longrightarrow> simplifyRoute points \<noteq> [] \<and> hd (simplifyRoute points) = hd points"
  by (auto simp: simplifyRoute_def Let_def)

lemma nearEq_sym: "nearEq a b = nearEq b a"
  by (simp add: nearEq_def abs_minus_commute)

lemma seg_far: "hseg p q \<or> vseg p q \<Longrightarrow> \<not> (nearEq (X q) (X p) \<and> nearEq (Y q) (Y p))"
  unfolding hseg_def vseg_def nearEq_def by (cases "X p \<le> X q"; cases "Y p \<le> Y q") auto

lemma dedupFrom_alt: "alt h (p # ps) \<Longrightarrow> dedupFrom p ps = ps"
proof (induction ps arbitrary: p h)
  case Nil then show ?case by simp
next
  case (Cons q qs)
  then have s: "hseg p q \<or> vseg p q" and a: "alt (\<not> h) (q # qs)" by (auto split: if_splits)
  from Cons.IH [OF a] seg_far [OF s] show ?case by simp
qed

lemma snapLast_seg: "hseg p q \<or> vseg p q \<Longrightarrow> snapLast p q = q"
  by (auto simp: snapLast_def hseg_def vseg_def nearEq_def)

lemma snapCurr_bend:
  "(hseg p q \<and> vseg q r) \<or> (vseg p q \<and> hseg q r) \<Longrightarrow> snapCurr p q r = q"
  by (auto simp: snapCurr_def hseg_def vseg_def nearEq_def Let_def)

lemma bend_not_collinear:
  "(hseg p q \<and> vseg q r) \<or> (vseg p q \<and> hseg q r) \<Longrightarrow>
   ((nearEq (X p) (X q) \<and> nearEq (X q) (X r)) \<or> (nearEq (Y p) (Y q) \<and> nearEq (Y q) (Y r))) = False"
  by (auto simp: hseg_def vseg_def nearEq_def)

lemma collinearFrom_alt: "alt h (p # ps) \<Longrightarrow> ps \<noteq> [] \<Longrightarrow> collinearFrom p ps = ps"
proof (induction p ps arbitrary: h rule: collinearFrom.induct)
  case (1 prev)
  then show ?case by simp
next
  case (2 prev lastPt)
  then have "hseg prev lastPt \<or> vseg prev lastPt" by (auto split: if_splits)
  then show ?case by (simp add: snapLast_seg)
next
  case (3 prev cur nxt rest)
  from "3.prems" have b: "(hseg prev cur \<and> vseg cur nxt) \<or> (vseg prev cur \<and> hseg cur nxt)"
    and a: "alt (\<not> h) (cur # nxt # rest)"
    by (auto split: if_splits)
  note nc = bend_not_collinear [OF b]
  note sc = snapCurr_bend [OF b]
  have nc': "\<not> ((nearEq (X prev) (X cur) \<and> nearEq (X cur) (X nxt)) \<or> (nearEq (Y prev) (Y cur) \<and> nearEq (Y cur) (Y nxt)))"
    using nc by simp
  have "collinearFrom (snapCurr prev cur nxt) (nxt # rest) = nxt # rest"
    using "3.IH"(2) [OF refl refl nc' refl, of "\<not> h"] a sc by simp
  then show ?case using sc by (simp only: collinearFrom.simps Let_def nc if_False)
qed

lemma simplifyRoute_alt: "alt h ps \<Longrightarrow> simplifyRoute ps = ps"
proof (cases ps)
  case Nil then show ?thesis by (simp add: simplifyRoute_def)
next
  case (Cons p qs)
  assume a: "alt h ps"
  show ?thesis
  proof (cases qs)
    case Nil
    then show ?thesis using Cons by (simp add: simplifyRoute_def)
  next
    case (Cons q rs)
    have d: "dedupFrom p qs = qs" using dedupFrom_alt [of h p qs] a \<open>ps = p # qs\<close> by simp
    have c: "collinearFrom p qs = qs" using a \<open>ps = p # qs\<close> Cons collinearFrom_alt [of h p qs] by simp
    show ?thesis using \<open>ps = p # qs\<close> d c Cons by (simp add: simplifyRoute_def Let_def)
  qed
qed


lemma rect_seg: "rectilinear (p # q # rest) \<Longrightarrow> hseg p q \<or> vseg p q"
  by (cases rest) auto

lemma rect_tl: "rectilinear (p # ps) \<Longrightarrow> rectilinear ps"
  by (cases ps; cases "tl ps") auto

lemma hv_excl: "hseg p q \<Longrightarrow> \<not> vseg p q"
  by (auto simp: hseg_def vseg_def)

lemma dedupFrom_rect: "rectilinear (p # ps) \<Longrightarrow> dedupFrom p ps = ps"
proof (induction ps arbitrary: p)
  case Nil then show ?case by simp
next
  case (Cons q qs)
  from Cons.prems have s: "hseg p q \<or> vseg p q" by (rule rect_seg)
  from Cons.prems have "rectilinear (q # qs)" by (rule rect_tl)
  from Cons.IH [OF this] seg_far [OF s] show ?case by simp
qed

lemma straight_collinear:
  "(hseg p q \<and> hseg q r) \<or> (vseg p q \<and> vseg q r) \<Longrightarrow>
   ((nearEq (X p) (X q) \<and> nearEq (X q) (X r)) \<or> (nearEq (Y p) (Y q) \<and> nearEq (Y q) (Y r))) = True"
  by (auto simp: hseg_def vseg_def nearEq_def)

lemma straight_join_h:
  assumes "hseg p q" "hseg q r" "forward p q r"
  shows "hseg p r \<and> (X p < X r) = (X q < X r)"
proof -
  from assms have y: "Y p = Y q" "Y q = Y r"
    and a: "1 / 2 \<le> \<bar>X p - X q\<bar>" and b: "1 / 2 \<le> \<bar>X q - X r\<bar>"
    and c: "(X p < X q) = (X q < X r)"
    by (simp_all add: hseg_def forward_def)
  show ?thesis
  proof (cases "X p < X q")
    case True
    with c have "X q < X r" by simp
    with True a b have "X p < X r" "1 / 2 \<le> \<bar>X p - X r\<bar>" by linarith+
    then show ?thesis using y \<open>X q < X r\<close> by (simp add: hseg_def)
  next
    case False
    with c have n: "\<not> X q < X r" by simp
    with False a b have "\<not> X p < X r" "1 / 2 \<le> \<bar>X p - X r\<bar>" by linarith+
    then show ?thesis using y n by (simp add: hseg_def)
  qed
qed

lemma straight_join_v:
  assumes "vseg p q" "vseg q r" "forward p q r"
  shows "vseg p r \<and> (Y p < Y r) = (Y q < Y r)"
proof -
  from assms have x: "X p = X q" "X q = X r"
    and a: "1 / 2 \<le> \<bar>Y p - Y q\<bar>" and b: "1 / 2 \<le> \<bar>Y q - Y r\<bar>"
    and c: "(Y p < Y q) = (Y q < Y r)"
    by (simp_all add: vseg_def forward_def)
  show ?thesis
  proof (cases "Y p < Y q")
    case True
    with c have "Y q < Y r" by simp
    with True a b have "Y p < Y r" "1 / 2 \<le> \<bar>Y p - Y r\<bar>" by linarith+
    then show ?thesis using x \<open>Y q < Y r\<close> by (simp add: vseg_def)
  next
    case False
    with c have n: "\<not> Y q < Y r" by simp
    with False a b have "\<not> Y p < Y r" "1 / 2 \<le> \<bar>Y p - Y r\<bar>" by linarith+
    then show ?thesis using x n by (simp add: vseg_def)
  qed
qed

lemma rect_skip:
  assumes r: "rectilinear (p # q # r # rest)"
    and s: "(hseg p q \<and> hseg q r) \<or> (vseg p q \<and> vseg q r)"
  shows "rectilinear (p # r # rest)"
proof -
  from r have f: "forward p q r" and r': "rectilinear (q # r # rest)" by simp_all
  from s have pr: "(hseg p r \<and> hseg q r \<and> (X p < X r) = (X q < X r))
                 \<or> (vseg p r \<and> vseg q r \<and> (Y p < Y r) = (Y q < Y r))"
    using straight_join_h [OF _ _ f] straight_join_v [OF _ _ f] by blast
  then have sg: "hseg p r \<or> vseg p r" by blast
  show ?thesis
  proof (cases rest)
    case Nil
    then show ?thesis using sg by simp
  next
    case (Cons t ts)
    with r' have f2: "forward q r t" and r2: "rectilinear (r # t # ts)" by simp_all
    have "forward p r t"
    proof (rule disjE [OF pr])
      assume h: "hseg p r \<and> hseg q r \<and> (X p < X r) = (X q < X r)"
      then have "\<not> vseg p r" using hv_excl by blast
      then show ?thesis using h f2 by (simp add: forward_def)
    next
      assume v: "vseg p r \<and> vseg q r \<and> (Y p < Y r) = (Y q < Y r)"
      then have "\<not> hseg p r" using hv_excl by blast
      then show ?thesis using v f2 by (simp add: forward_def)
    qed
    then show ?thesis using Cons sg r2 by simp
  qed
qed

lemma collinearFrom_rect:
  "rectilinear (p # ps) \<Longrightarrow> ps \<noteq> [] \<Longrightarrow> alt (hseg p (hd ps)) (p # collinearFrom p ps)"
proof (induction p ps rule: collinearFrom.induct)
  case (1 prev)
  then show ?case by simp
next
  case (2 prev lastPt)
  then have "hseg prev lastPt \<or> vseg prev lastPt" by simp
  then show ?case by (auto simp: snapLast_seg)
next
  case (3 prev cur nxt rest)
  from "3.prems"(1) have s1: "hseg prev cur \<or> vseg prev cur" by (rule rect_seg)
  from "3.prems"(1) have r': "rectilinear (cur # nxt # rest)" by (rule rect_tl)
  then have s2: "hseg cur nxt \<or> vseg cur nxt" by (rule rect_seg)
  show ?case
  proof (cases "(hseg prev cur \<and> hseg cur nxt) \<or> (vseg prev cur \<and> vseg cur nxt)")
    case True
    note col = straight_collinear [OF True]
    have rs: "rectilinear (prev # nxt # rest)" by (rule rect_skip [OF "3.prems"(1) True])
    have c: "(nearEq (X prev) (X cur) \<and> nearEq (X cur) (X nxt)) \<or>
             (nearEq (Y prev) (Y cur) \<and> nearEq (Y cur) (Y nxt))" using col by simp
    have ih: "alt (hseg prev nxt) (prev # collinearFrom prev (nxt # rest))"
      using "3.IH"(1) [OF refl refl c rs] by simp
    from "3.prems" have f: "forward prev cur nxt" by simp
    have "hseg prev nxt = hseg prev cur"
      using True straight_join_h [OF _ _ f] straight_join_v [OF _ _ f] hv_excl by blast
    then show ?thesis using ih by (simp only: collinearFrom.simps Let_def col if_True list.sel)
  next
    case False
    with s1 s2 have b: "(hseg prev cur \<and> vseg cur nxt) \<or> (vseg prev cur \<and> hseg cur nxt)" by blast
    note nc = bend_not_collinear [OF b]
    note sc = snapCurr_bend [OF b]
    have nc': "\<not> ((nearEq (X prev) (X cur) \<and> nearEq (X cur) (X nxt)) \<or>
                  (nearEq (Y prev) (Y cur) \<and> nearEq (Y cur) (Y nxt)))" using nc by simp
    have ih: "alt (hseg cur nxt) (cur # collinearFrom cur (nxt # rest))"
      using "3.IH"(2) [OF refl refl nc' refl] r' sc by simp
    have h: "hseg cur nxt = (\<not> hseg prev cur)" using b hv_excl by blast
    have "alt (hseg prev cur) (prev # cur # collinearFrom cur (nxt # rest))"
      using ih s1 h by auto
    then show ?thesis using sc by (simp only: collinearFrom.simps Let_def nc if_False list.sel)
  qed
qed

lemma simplifyRoute_rect:
  assumes "rectilinear ps"
  shows "\<exists>h. alt h (simplifyRoute ps)"
proof (cases ps)
  case Nil then show ?thesis by (simp add: simplifyRoute_def)
next
  case (Cons p qs)
  show ?thesis
  proof (cases qs)
    case Nil
    then show ?thesis using Cons by (simp add: simplifyRoute_def)
  next
    case (Cons q rs)
    have d: "dedupFrom p qs = qs" using dedupFrom_rect assms \<open>ps = p # qs\<close> by simp
    have a: "alt (hseg p (hd qs)) (p # collinearFrom p qs)"
      using collinearFrom_rect [of p qs] assms \<open>ps = p # qs\<close> Cons by simp
    show ?thesis
    proof (cases rs)
      case Nil
      have "hseg p q \<or> vseg p q" using assms \<open>ps = p # qs\<close> Cons Nil by simp
      then have "alt (hseg p q) [p, q]" by auto
      then show ?thesis using \<open>ps = p # qs\<close> Cons Nil d
        by (auto simp: simplifyRoute_def Let_def simp del: alt.simps)
    next
      case (Cons r ts)
      then show ?thesis using \<open>ps = p # qs\<close> \<open>qs = q # rs\<close> d a
        by (auto simp: simplifyRoute_def Let_def simp del: alt.simps)
    qed
  qed
qed



lemma nearEq_refl: "nearEq a a"
  by (simp add: nearEq_def)

lemma dedup_last_near:
  "nearEq (X (last (prev # dedupFrom prev ps))) (X (last (prev # ps))) \<and>
   nearEq (Y (last (prev # dedupFrom prev ps))) (Y (last (prev # ps)))"
proof (induction ps arbitrary: prev)
  case Nil
  then show ?case by (simp add: nearEq_refl)
next
  case (Cons p ps)
  show ?case
  proof (cases "\<not> nearEq (X p) (X prev) \<or> \<not> nearEq (Y p) (Y prev)")
    case True
    then show ?thesis using Cons.IH [of p] by simp
  next
    case False
    then have n: "nearEq (X prev) (X p)" "nearEq (Y prev) (Y p)" using nearEq_sym by blast+
    show ?thesis
    proof (cases ps)
      case Nil
      then show ?thesis using False n by simp
    next
      case (Cons q qs)
      then show ?thesis using False Cons.IH [of prev] by simp
    qed
  qed
qed

lemma snapLast_near:
  "\<bar>X (snapLast a b) - X b\<bar> < 1 / 2 \<and> \<bar>Y (snapLast a b) - Y b\<bar> < 1 / 2"
  by (auto simp: snapLast_def nearEq_def)

lemma collinearFrom_last:
  "ps \<noteq> [] \<Longrightarrow> collinearFrom prev ps \<noteq> [] \<and> (\<exists>q. last (collinearFrom prev ps) = snapLast q (last ps))"
proof (induction prev ps rule: collinearFrom.induct)
  case (1 prev)
  then show ?case by simp
next
  case (2 prev lastPt)
  then show ?case by auto
next
  case (3 prev cur nxt rest)
  show ?case
  proof (cases "(nearEq (X prev) (X cur) \<and> nearEq (X cur) (X nxt)) \<or>
                (nearEq (Y prev) (Y cur) \<and> nearEq (Y cur) (Y nxt))")
    case True
    then have e: "collinearFrom prev (cur # nxt # rest) = collinearFrom prev (nxt # rest)"
      by (auto simp: Let_def)
    from "3.IH"(1) [OF refl refl True] show ?thesis unfolding e by simp
  next
    case False
    then have e: "collinearFrom prev (cur # nxt # rest) =
        snapCurr prev cur nxt # collinearFrom (snapCurr prev cur nxt) (nxt # rest)"
      by (auto simp: Let_def)
    from "3.IH"(2) [OF refl refl False refl] show ?thesis unfolding e by simp
  qed
qed

lemma simplifyRoute_last_near:
  assumes "points \<noteq> []"
  shows "\<bar>X (last (simplifyRoute points)) - X (last points)\<bar> < 1 \<and>
         \<bar>Y (last (simplifyRoute points)) - Y (last points)\<bar> < 1"
proof -
  obtain p ps where pts: "points = p # ps" using assms by (cases points) auto
  let ?d = "p # dedupFrom p ps"
  have d: "\<bar>X (last ?d) - X (last points)\<bar> < 1 / 2 \<and> \<bar>Y (last ?d) - Y (last points)\<bar> < 1 / 2"
    using dedup_last_near [of p ps] pts by (simp add: nearEq_def)
  show ?thesis
  proof (cases "length points \<le> 1 \<or> length ?d \<le> 2")
    case True
    then have "simplifyRoute points = points \<or> simplifyRoute points = ?d"
      using pts by (auto simp: simplifyRoute_def Let_def)
    then show ?thesis using d by auto
  next
    case False
    then have e: "simplifyRoute points = p # collinearFrom p (dedupFrom p ps)"
      using pts by (auto simp: simplifyRoute_def Let_def)
    from False have ne: "dedupFrom p ps \<noteq> []" by auto
    from collinearFrom_last [OF ne, of p] obtain q where
      c: "collinearFrom p (dedupFrom p ps) \<noteq> []"
      and l: "last (collinearFrom p (dedupFrom p ps)) = snapLast q (last (dedupFrom p ps))"
      by blast
    have "last (simplifyRoute points) = snapLast q (last ?d)"
      using e c l ne by simp
    then show ?thesis using d snapLast_near [of q "last ?d"] by (auto simp: abs_if split: if_splits)
  qed
qed

lemma sameEnds_refl: "sameEnds r r"
  by (simp add: sameEnds_def)

lemma sameEnds_trans: "sameEnds a b \<Longrightarrow> sameEnds b c \<Longrightarrow> sameEnds a c"
  by (auto simp: sameEnds_def)

lemma nudgeSegment_ends:
  assumes "nudgeSegment bo offsets seg routes = Some routes'"
  shows "sameEnds routes routes'"
proof (cases "\<bar>offsets (edgeIdx seg)\<bar> < 1 / 10 \<or> int (length (Points (routes ! edgeIdx seg))) - 1 \<le> int (segIdx seg)")
  case True
  then have "routes' = routes" using assms by (auto simp: nudgeSegment_def Let_def split: if_splits)
  then show ?thesis by (simp add: sameEnds_refl)
next
  case False
  let ?e = "edgeIdx seg" and ?k = "segIdx seg"
  let ?pts = "Points (routes ! ?e)"
  let ?move = "if bo = Horizontal then addY (offsets ?e) else addX (offsets ?e)"
  let ?pts1 = "if ?k \<noteq> 0 then ?pts[?k := ?move (?pts ! ?k)] else ?pts"
  let ?pts2 = "if ?k + 1 \<noteq> length ?pts - 1 then ?pts1[?k + 1 := ?move (?pts1 ! (?k + 1))] else ?pts1"
  from False have k: "?k + 1 < length ?pts" by linarith
  from False assms have e: "?e < length routes"
    and r': "routes' = routes[?e := (routes ! ?e)\<lparr>Points := ?pts2\<rparr>]"
    by (auto simp: nudgeSegment_def Let_def split: if_splits)
  have l2: "length ?pts2 = length ?pts" by simp
  have h2: "?pts2 ! 0 = ?pts ! 0" by simp
  have t2: "?pts2 ! (length ?pts - 1) = ?pts ! (length ?pts - 1)"
    using k by auto
  show ?thesis
    unfolding sameEnds_def r'
  proof (intro conjI allI impI)
    show "length (routes[?e := (routes ! ?e)\<lparr>Points := ?pts2\<rparr>]) = length routes" by simp
  next
    fix r assume r: "r < length routes"
    show "length (Points (routes[?e := (routes ! ?e)\<lparr>Points := ?pts2\<rparr>] ! r)) = length (Points (routes ! r))"
      using r l2 by (cases "r = ?e") simp_all
    show "Points (routes[?e := (routes ! ?e)\<lparr>Points := ?pts2\<rparr>] ! r) ! 0 = Points (routes ! r) ! 0"
      using r h2 by (cases "r = ?e") simp_all
    show "Points (routes[?e := (routes ! ?e)\<lparr>Points := ?pts2\<rparr>] ! r) ! (length (Points (routes ! r)) - 1)
            = Points (routes ! r) ! (length (Points (routes ! r)) - 1)"
      using r t2 by (cases "r = ?e") simp_all
  qed
qed

lemma nudge_fold_ends:
  "fold (\<lambda>seg r. Option.bind r (nudgeSegment bo offsets seg)) segs (Some routes) = Some routes'
   \<Longrightarrow> sameEnds routes routes'"
proof (induction segs arbitrary: routes' rule: rev_induct)
  case Nil
  then show ?case by (simp add: sameEnds_refl)
next
  case (snoc seg segs)
  from snoc.prems obtain rm where
    m: "fold (\<lambda>seg r. Option.bind r (nudgeSegment bo offsets seg)) segs (Some routes) = Some rm"
    and s: "nudgeSegment bo offsets seg rm = Some routes'"
    by (auto simp: bind_eq_Some_conv)
  from snoc.IH [OF m] nudgeSegment_ends [OF s] show ?case by (rule sameEnds_trans)
qed

lemma applyNudgeOffsets_ends:
  assumes "applyNudgeOffsets routes bundle offsets = Some routes'"
  shows "length routes' = length routes"
    and "r < length routes \<Longrightarrow> Points (routes ! r) \<noteq> [] \<Longrightarrow>
          hd (Points (routes' ! r)) = hd (Points (routes ! r)) \<and>
          last (Points (routes' ! r)) = last (Points (routes ! r))"
proof -
  have se: "sameEnds routes routes'"
    using assms nudge_fold_ends unfolding applyNudgeOffsets_def by blast
  then show "length routes' = length routes" by (simp add: sameEnds_def)
  assume r: "r < length routes" and ne: "Points (routes ! r) \<noteq> []"
  from se r have l: "length (Points (routes' ! r)) = length (Points (routes ! r))"
    and h: "Points (routes' ! r) ! 0 = Points (routes ! r) ! 0"
    and t: "Points (routes' ! r) ! (length (Points (routes ! r)) - 1) =
           Points (routes ! r) ! (length (Points (routes ! r)) - 1)"
    by (simp_all add: sameEnds_def)
  from l ne have ne': "Points (routes' ! r) \<noteq> []" by auto
  show "hd (Points (routes' ! r)) = hd (Points (routes ! r)) \<and>
          last (Points (routes' ! r)) = last (Points (routes ! r))"
    using h t l ne ne' by (simp add: hd_conv_nth last_conv_nth)
qed

text \<open>
  Claim C1, as the code has it. \<^verbatim>\<open>simplifyRoute\<close> returns a route that starts with the
  first point of its input, unchanged; its last point is within one unit of the last point
  of the input in each coordinate (the last input point is dropped when it is within 0.5
  of the point kept before it, and the last kept point is snapped onto the x or the y of
  the point before it when within 0.5). \<^verbatim>\<open>applyNudgeOffsets\<close> leaves the first and the
  last point of every route unchanged.
\<close>

theorem route_endpoints_frame:
  "(points \<noteq> [] \<longrightarrow>
      simplifyRoute points \<noteq> [] \<and> hd (simplifyRoute points) = hd points \<and>
      \<bar>X (last (simplifyRoute points)) - X (last points)\<bar> < 1 \<and>
      \<bar>Y (last (simplifyRoute points)) - Y (last points)\<bar> < 1)
   \<and> (applyNudgeOffsets routes bundle offsets = Some routes' \<longrightarrow>
      length routes' = length routes \<and>
      (\<forall>r < length routes. Points (routes ! r) \<noteq> [] \<longrightarrow>
         hd (Points (routes' ! r)) = hd (Points (routes ! r)) \<and>
         last (Points (routes' ! r)) = last (Points (routes ! r))))"
  using simplifyRoute_hd [of points] simplifyRoute_last_near [of points]
    applyNudgeOffsets_ends [of routes "bundle" offsets routes']
  by blast

theorem route_endpoints_frame_witness:
  "hd (simplifyRoute ce1_points) = \<lparr>X = 0, Y = 0\<rparr>
   \<and> \<bar>X (last (simplifyRoute ce1_points)) - 1004 / 10\<bar> < 1
   \<and> map (\<lambda>r. (hd (Points r), last (Points r))) (the (applyNudgeOffsets w1_routes w1_bundle w1_offsets))
       = [(\<lparr>X = 0, Y = 0\<rparr>, \<lparr>X = 100, Y = 100\<rparr>), (\<lparr>X = 0, Y = 20\<rparr>, \<lparr>X = 100, Y = 80\<rparr>)]"
proof -
  have "applyNudgeOffsets w1_routes w1_bundle w1_offsets \<noteq> None"
    by code_simp
  then obtain rs where rs: "applyNudgeOffsets w1_routes w1_bundle w1_offsets = Some rs"
    by blast
  have ne: "ce1_points \<noteq> []" by (simp add: ce1_points_def)
  from route_endpoints_frame [of ce1_points w1_routes w1_bundle w1_offsets rs] ne rs
  have s: "hd (simplifyRoute ce1_points) = hd ce1_points"
    and l: "\<bar>X (last (simplifyRoute ce1_points)) - X (last ce1_points)\<bar> < 1"
    and n: "length rs = length w1_routes"
    and e: "\<forall>r < length w1_routes. Points (w1_routes ! r) \<noteq> [] \<longrightarrow>
         hd (Points (rs ! r)) = hd (Points (w1_routes ! r)) \<and>
         last (Points (rs ! r)) = last (Points (w1_routes ! r))"
    by blast+
  from n have n2: "length rs = 2" by (simp add: w1_routes_def)
  then obtain a b where ab: "rs = [a, b]"
    by (cases rs; cases "tl rs") auto
  from e have "hd (Points (rs ! 0)) = \<lparr>X = 0, Y = 0\<rparr> \<and> last (Points (rs ! 0)) = \<lparr>X = 100, Y = 100\<rparr>
     \<and> hd (Points (rs ! 1)) = \<lparr>X = 0, Y = 20\<rparr> \<and> last (Points (rs ! 1)) = \<lparr>X = 100, Y = 80\<rparr>"
    by (simp add: w1_routes_def)
  then show ?thesis using s l rs ab by (simp add: ce1_points_def)
qed

text \<open>
  Claim C1 as stated fails for \<^verbatim>\<open>simplifyRoute\<close>: a route that ends at a port at
  x = 100.4 after a vertical run at x = 100 comes back with its last point moved to
  x = 100 (\<^verbatim>\<open>last.X = prevPt.X\<close>).
\<close>

theorem simplifyRoute_last_point_counterexample:
  "last ce1_points = \<lparr>X = 1004 / 10, Y = 100\<rparr>
   \<and> simplifyRoute ce1_points = [\<lparr>X = 0, Y = 0\<rparr>, \<lparr>X = 100, Y = 0\<rparr>, \<lparr>X = 100, Y = 100\<rparr>]"
  by code_simp

text \<open>
  Claim C4, as the code has it. \<^verbatim>\<open>simplifyRoute\<close> is idempotent on rectilinear routes:
  routes whose consecutive points are exactly aligned on one axis and at least 0.5 apart
  on the other, and that never turn back on a straight run.
\<close>

theorem simplifyRoute_idempotent_rectilinear:
  "rectilinear ps \<Longrightarrow> simplifyRoute (simplifyRoute ps) = simplifyRoute ps"
  using simplifyRoute_rect simplifyRoute_alt by blast

theorem simplifyRoute_idempotent_rectilinear_witness:
  "rectilinear w4_points
   \<and> simplifyRoute w4_points = [\<lparr>X = 0, Y = 0\<rparr>, \<lparr>X = 100, Y = 0\<rparr>, \<lparr>X = 100, Y = 50\<rparr>]
   \<and> simplifyRoute (simplifyRoute w4_points) = simplifyRoute w4_points"
proof -
  have r: "rectilinear w4_points"
    by (simp add: w4_points_def hseg_def vseg_def forward_def)
  have e: "simplifyRoute w4_points = [\<lparr>X = 0, Y = 0\<rparr>, \<lparr>X = 100, Y = 0\<rparr>, \<lparr>X = 100, Y = 50\<rparr>]"
    by code_simp
  from r e simplifyRoute_idempotent_rectilinear [OF r] show ?thesis by simp
qed

text \<open>
  Claim C4 as stated fails: on a nearly vertical route with sub-unit jitter in x the
  first call keeps the bend at y = 9 (snapped to x = 0.2), and the second call removes it
  and moves the last point to x = 0.
\<close>

theorem simplifyRoute_idempotent_counterexample:
  "simplifyRoute ce4_points = [\<lparr>X = 0, Y = 0\<rparr>, \<lparr>X = 2 / 10, Y = 9\<rparr>, \<lparr>X = 2 / 10, Y = 11\<rparr>]
   \<and> simplifyRoute (simplifyRoute ce4_points) = [\<lparr>X = 0, Y = 0\<rparr>, \<lparr>X = 0, Y = 11\<rparr>]"
  by code_simp

section \<open>Theorems: crossing penalties\<close>

subsection \<open>Updating single positions\<close>

lemma map_update_inv:
  "(\<And>e. f (g e) = f e) \<Longrightarrow> map f (xs[i := g (xs ! i)]) = map f xs"
  by (induction xs arbitrary: i) (auto split: nat.splits)

lemma length_bumpAt [simp]: "length (bumpAt upd p adj n) = length (adj n)"
  by (simp add: bumpAt_def)

lemma shape_bumpAt [simp]: "shape (bumpAt upd p adj) = shape adj"
proof
  fix n
  have "map (\<lambda>e. (From e, To e)) ((adj (fst p))[snd p := bumpWeight upd (adj (fst p) ! snd p)])
        = map (\<lambda>e. (From e, To e)) (adj (fst p))"
    by (rule map_update_inv) (simp add: bumpWeight_def)
  then show "shape (bumpAt upd p adj) n = shape adj n"
    by (simp add: shape_def bumpAt_def)
qed

lemma applyPlan_Nil [simp]: "applyPlan upd [] adj = adj"
  by (simp add: applyPlan_def)

lemma applyPlan_Cons [simp]: "applyPlan upd (x # p) adj = applyPlan upd p (bumpAt upd x adj)"
  by (simp add: applyPlan_def)

lemma applyPlan_append: "applyPlan upd (p @ q) adj = applyPlan upd q (applyPlan upd p adj)"
  by (simp add: applyPlan_def)

lemma shape_applyPlan [simp]: "shape (applyPlan upd p adj) = shape adj"
  by (induction p arbitrary: adj) simp_all

lemma shape_length: "shape adj' = shape adj \<Longrightarrow> length (adj' n) = length (adj n)"
  by (metis length_map shape_def)

lemma shape_nth:
  assumes "shape adj' = shape adj" and "i < length (adj n)"
  shows "From (adj' n ! i) = From (adj n ! i)" and "To (adj' n ! i) = To (adj n ! i)"
proof -
  have l: "i < length (adj' n)" using assms shape_length by metis
  have "shape adj' n ! i = shape adj n ! i" using assms by simp
  then have "(From (adj' n ! i), To (adj' n ! i)) = (From (adj n ! i), To (adj n ! i))"
    using l assms(2) by (simp add: shape_def)
  then show "From (adj' n ! i) = From (adj n ! i)" and "To (adj' n ! i) = To (adj n ! i)" by simp_all
qed

lemma firstRev_map:
  "map (\<lambda>e. (From e, To e)) xs = map (\<lambda>e. (From e, To e)) ys \<Longrightarrow> firstRev t f xs = firstRev t f ys"
proof (induction xs arbitrary: ys)
  case Nil
  then show ?case by simp
next
  case (Cons x xs)
  then obtain y ys' where ys: "ys = y # ys'" by (cases ys) auto
  with Cons.prems have "From x = From y" "To x = To y"
    and "map (\<lambda>e. (From e, To e)) xs = map (\<lambda>e. (From e, To e)) ys'" by simp_all
  with Cons.IH [of ys'] ys show ?case by simp
qed

lemma firstRev_shape: "shape adj' = shape adj \<Longrightarrow> firstRev t f (adj' m) = firstRev t f (adj m)"
  by (rule firstRev_map) (metis shape_def)

lemma planEdge_shape:
  assumes "shape adj' = shape adj" and "ei < length (adj nodeID)"
  shows "planEdge nodes routed nodeID ei adj' = planEdge nodes routed nodeID ei adj"
  unfolding planEdge_def Let_def shape_nth [OF assms] firstRev_shape [OF assms(1)] ..

lemma bumpFirstRev_firstRev:
  "bumpFirstRev upd t f es =
     (case firstRev t f es of None \<Rightarrow> es | Some j \<Rightarrow> es[j := bumpWeight upd (es ! j)])"
  by (induction es) (auto split: option.splits)

lemma penalizeEdge_plan:
  "penalizeEdge upd nodes routed nodeID ei adj =
     map_option (\<lambda>p. applyPlan upd p adj) (planEdge nodes routed nodeID ei adj)"
proof -
  let ?e = "adj nodeID ! ei"
  let ?adj1 = "bumpAt upd (nodeID, ei) adj"
  have a1: "adj(nodeID := (adj nodeID)[ei := bumpWeight upd ?e]) = ?adj1"
    by (simp add: bumpAt_def)
  have fr: "firstRev (To ?e) (From ?e) (?adj1 (To ?e)) = firstRev (To ?e) (From ?e) (adj (To ?e))"
    by (rule firstRev_shape) simp
  have a2: "?adj1(To ?e := bumpFirstRev upd (To ?e) (From ?e) (?adj1 (To ?e))) =
        applyPlan upd (case firstRev (To ?e) (From ?e) (adj (To ?e)) of None \<Rightarrow> [] | Some j \<Rightarrow> [(To ?e, j)]) ?adj1"
  proof (cases "firstRev (To ?e) (From ?e) (adj (To ?e))")
    case None
    then show ?thesis unfolding bumpFirstRev_firstRev fr by (simp only: option.case applyPlan_Nil fun_upd_triv)
  next
    case (Some j)
    then show ?thesis unfolding bumpFirstRev_firstRev fr by (simp add: bumpAt_def)
  qed
  show ?thesis
    unfolding penalizeEdge_def planEdge_def Let_def a1 a2
    by (simp split: option.splits bool.splits)
qed

lemma fold_bind_None: "fold (\<lambda>x r. Option.bind r (g x)) xs None = None"
  by (induction xs) simp_all

lemma planAll_cong: "(\<And>x. x \<in> set xs \<Longrightarrow> f x = g x) \<Longrightarrow> planAll f xs = planAll g xs"
  by (induction xs) (auto split: option.splits)

lemma fold_plan:
  assumes step: "\<And>x adj. x \<in> set xs \<Longrightarrow> shape adj = shape adj0 \<Longrightarrow>
            g x adj = map_option (\<lambda>p. applyPlan upd p adj) (f x)"
    and sh: "shape adj = shape adj0"
  shows "fold (\<lambda>x r. Option.bind r (g x)) xs (Some adj) =
           map_option (\<lambda>p. applyPlan upd p adj) (planAll f xs)"
  using assms
proof (induction xs arbitrary: adj)
  case Nil
  then show ?case by simp
next
  case (Cons x xs)
  have gx: "g x adj = map_option (\<lambda>p. applyPlan upd p adj) (f x)"
    using Cons.prems by simp
  show ?case
  proof (cases "f x")
    case None
    then show ?thesis using gx by (simp add: fold_bind_None)
  next
    case (Some p)
    let ?adj' = "applyPlan upd p adj"
    have sh': "shape ?adj' = shape adj0" using Cons.prems(2) by simp
    have ih: "fold (\<lambda>x r. Option.bind r (g x)) xs (Some ?adj') =
           map_option (\<lambda>p. applyPlan upd p ?adj') (planAll f xs)"
      using Cons.IH [OF _ sh'] Cons.prems(1) by simp
    show ?thesis using gx Some ih
      by (cases "planAll f xs") (simp_all add: applyPlan_append)
  qed
qed

lemma penalizeNode_plan:
  assumes "shape adj = shape adj0"
  shows "penalizeNode upd nodes routed nodeID adj =
     map_option (\<lambda>p. applyPlan upd p adj) (planNode nodes routed adj0 nodeID)"
proof -
  have l: "length (adj nodeID) = length (adj0 nodeID)" using assms by (rule shape_length)
  have "fold (\<lambda>ei r. Option.bind r (penalizeEdge upd nodes routed nodeID ei)) [0..<length (adj0 nodeID)] (Some adj)
      = map_option (\<lambda>p. applyPlan upd p adj)
          (planAll (\<lambda>ei. planEdge nodes routed nodeID ei adj0) [0..<length (adj0 nodeID)])"
  proof (rule fold_plan [OF _ assms])
    fix ei adj'
    assume "ei \<in> set [0..<length (adj0 nodeID)]" and "shape adj' = shape adj0"
    then show "penalizeEdge upd nodes routed nodeID ei adj' =
        map_option (\<lambda>p. applyPlan upd p adj') (planEdge nodes routed nodeID ei adj0)"
      using penalizeEdge_plan [of upd nodes routed nodeID ei adj'] planEdge_shape [of adj' adj0 ei nodeID]
      by simp
  qed
  then show ?thesis by (simp add: penalizeNode_def planNode_def l)
qed

lemma planNode_shape: "shape adj' = shape adj \<Longrightarrow> planNode nodes routed adj' n = planNode nodes routed adj n"
  unfolding planNode_def
  using planAll_cong [of "[0..<length (adj n)]" "\<lambda>ei. planEdge nodes routed n ei adj'" "\<lambda>ei. planEdge nodes routed n ei adj"]
    planEdge_shape [of adj' adj _ n] shape_length [of adj' adj n]
  by simp

lemma penaltyPass_plan:
  "penaltyPass upd order rg routed =
     (if length routed = 0 then Some rg
      else map_option (\<lambda>p. rg\<lparr>Adj := applyPlan upd p (Adj rg)\<rparr>)
             (planAll (planNode (Nodes rg) routed (Adj rg)) order))"
proof -
  have "fold (\<lambda>nodeID r. Option.bind r (penalizeNode upd (Nodes rg) routed nodeID)) order (Some (Adj rg))
      = map_option (\<lambda>p. applyPlan upd p (Adj rg)) (planAll (planNode (Nodes rg) routed (Adj rg)) order)"
    by (rule fold_plan [OF _ refl]) (rule penalizeNode_plan)
  then show ?thesis by (simp add: penaltyPass_def option.map_comp comp_def)
qed

subsection \<open>Plans under permutation of the order\<close>

lemma planAll_None: "planAll f xs = None \<longleftrightarrow> (\<exists>x \<in> set xs. f x = None)"
  by (induction xs) (auto split: option.splits)

lemma planAll_concat: "planAll f xs = Some p \<Longrightarrow> p = concat (map (\<lambda>x. the (f x)) xs)"
  by (induction xs arbitrary: p) (auto split: option.splits)

lemma planAll_Some:
  "planAll f xs = Some p \<longleftrightarrow> (\<forall>x \<in> set xs. f x \<noteq> None) \<and> p = concat (map (\<lambda>x. the (f x)) xs)"
proof
  assume "planAll f xs = Some p"
  then show "(\<forall>x \<in> set xs. f x \<noteq> None) \<and> p = concat (map (\<lambda>x. the (f x)) xs)"
    using planAll_None [of f xs] planAll_concat [of f xs p] by auto
next
  assume a: "(\<forall>x \<in> set xs. f x \<noteq> None) \<and> p = concat (map (\<lambda>x. the (f x)) xs)"
  then have "planAll f xs \<noteq> None" using planAll_None [of f xs] by blast
  then obtain q where q: "planAll f xs = Some q" by blast
  then show "planAll f xs = Some p" using planAll_concat [OF q] a by simp
qed

lemma planAll_perm:
  assumes "mset ys = mset xs" and "planAll f xs = Some p"
  shows "\<exists>q. planAll f ys = Some q \<and> mset q = mset p"
proof -
  from assms(1) have s: "set ys = set xs" by (rule mset_eq_setD)
  from assms(2) have a: "\<forall>x \<in> set xs. f x \<noteq> None" and p: "p = concat (map (\<lambda>x. the (f x)) xs)"
    by (simp_all add: planAll_Some)
  let ?q = "concat (map (\<lambda>x. the (f x)) ys)"
  have "planAll f ys = Some ?q" using a s by (simp add: planAll_Some)
  moreover have "mset ?q = mset p"
  proof -
    have "mset (map (\<lambda>x. mset (the (f x))) ys) = mset (map (\<lambda>x. mset (the (f x))) xs)"
      using assms(1) by simp
    then have "sum_list (map (\<lambda>x. mset (the (f x))) ys) = sum_list (map (\<lambda>x. mset (the (f x))) xs)"
      by (metis sum_mset_sum_list)
    then show ?thesis by (simp add: p mset_concat comp_def)
  qed
  ultimately show ?thesis by blast
qed

subsection \<open>The closed form of a plan and the cancellation\<close>

lemma bumpWeight_comp: "bumpWeight f (bumpWeight g e) = bumpWeight (f \<circ> g) e"
  by (simp add: bumpWeight_def)

lemma bumpWeight_id: "bumpWeight (\<lambda>w. w) e = e"
  by (simp add: bumpWeight_def)

lemma bumpAt_nth:
  "i < length (adj n) \<Longrightarrow>
   bumpAt upd x adj n ! i = (if x = (n, i) then bumpWeight upd (adj n ! i) else adj n ! i)"
  by (cases x) (auto simp: bumpAt_def nth_list_update)

lemma length_applyPlan [simp]: "length (applyPlan upd p adj n) = length (adj n)"
  by (induction p arbitrary: adj) simp_all

lemma applyPlan_nth:
  "i < length (adj n) \<Longrightarrow>
   applyPlan upd p adj n ! i = bumpWeight (upd ^^ count_list p (n, i)) (adj n ! i)"
proof (induction p arbitrary: adj)
  case Nil
  then show ?case by (simp add: bumpWeight_def)
next
  case (Cons x p)
  have "applyPlan upd (x # p) adj n ! i =
        bumpWeight (upd ^^ count_list p (n, i)) (bumpAt upd x adj n ! i)"
    using Cons.IH [of "bumpAt upd x adj"] Cons.prems by simp
  also have "\<dots> = bumpWeight (upd ^^ count_list (x # p) (n, i)) (adj n ! i)"
    using Cons.prems by (simp add: bumpAt_nth bumpWeight_comp funpow_Suc_right del: funpow.simps)
  finally show ?case .
qed

lemma funpow_cancel:
  fixes dn up :: "'a \<Rightarrow> 'a"
  shows "(\<And>w. dn (up w) = w) \<Longrightarrow> (dn ^^ k) ((up ^^ k) w) = w"
proof (induction k arbitrary: w)
  case 0
  show ?case by simp
next
  case (Suc k)
  have "(dn ^^ Suc k) ((up ^^ Suc k) w) = (dn ^^ k) (dn (up ((up ^^ k) w)))"
    by (simp add: funpow_swap1)
  then show ?case using Suc by simp
qed

lemma applyPlan_cancel:
  assumes inv: "\<And>w. dn (up w) = w" and m: "mset q = mset p"
  shows "applyPlan dn q (applyPlan up p adj) = adj"
proof
  fix n
  show "applyPlan dn q (applyPlan up p adj) n = adj n"
  proof (rule nth_equalityI)
    show "length (applyPlan dn q (applyPlan up p adj) n) = length (adj n)" by simp
  next
    fix i assume "i < length (applyPlan dn q (applyPlan up p adj) n)"
    then have i: "i < length (adj n)" by simp
    have c: "count_list q (n, i) = count_list p (n, i)"
      using m by (metis count_mset)
    have "applyPlan dn q (applyPlan up p adj) n ! i =
          bumpWeight (dn ^^ count_list p (n, i)) (bumpWeight (up ^^ count_list p (n, i)) (adj n ! i))"
      using i by (simp add: applyPlan_nth c)
    also have "\<dots> = adj n ! i"
      using funpow_cancel [of dn up, OF inv] by (simp add: bumpWeight_def)
    finally show "applyPlan dn q (applyPlan up p adj) n ! i = adj n ! i" .
  qed
qed

lemma penaltyPass_inverse:
  assumes inv: "\<And>w. dn (up w) = w"
    and perm: "mset order2 = mset order1"
    and add: "penaltyPass up order1 rg routed = Some rg1"
  shows "penaltyPass dn order2 rg1 routed = Some rg"
proof (cases "length routed = 0")
  case True
  then show ?thesis using add by (simp add: penaltyPass_def)
next
  case False
  from add False obtain p where
    p: "planAll (planNode (Nodes rg) routed (Adj rg)) order1 = Some p"
    and rg1: "rg1 = rg\<lparr>Adj := applyPlan up p (Adj rg)\<rparr>"
    by (auto simp: penaltyPass_plan)
  from planAll_perm [OF perm p] obtain q where
    q: "planAll (planNode (Nodes rg) routed (Adj rg)) order2 = Some q" and m: "mset q = mset p"
    by blast
  have sh: "shape (Adj rg1) = shape (Adj rg)" by (simp add: rg1)
  have "planAll (planNode (Nodes rg1) routed (Adj rg1)) order2 = Some q"
    using q planNode_shape [OF sh] by (simp add: rg1 cong: planAll_cong)
  then have "penaltyPass dn order2 rg1 routed = Some (rg1\<lparr>Adj := applyPlan dn q (Adj rg1)\<rparr>)"
    using False by (simp add: penaltyPass_plan)
  also have "rg1\<lparr>Adj := applyPlan dn q (Adj rg1)\<rparr> = rg"
    using applyPlan_cancel [of dn up q p "Adj rg", OF inv m] by (simp add: rg1)
  finally show ?thesis .
qed





section \<open>Theorems: modified Dijkstra\<close>

lemma swapAt_mset: "i < length h \<Longrightarrow> j < length h \<Longrightarrow> mset (swapAt h i j) = mset h"
  by (simp add: swapAt_def mset_swap)

lemma swapAt_length [simp]: "length (swapAt h i j) = length h"
  by (simp add: swapAt_def)

lemma heapUp_mset: "j < length h \<Longrightarrow> mset (heapUp lt h j) = mset h"
proof (induction lt h j rule: heapUp.induct)
  case (1 lt h j)
  let ?i = "(j - 1) div 2"
  show ?case
  proof (cases "?i = j \<or> \<not> lt (h ! j) (h ! ?i)")
    case True
    then show ?thesis by (subst heapUp.simps) (simp add: Let_def)
  next
    case False
    have i: "?i < length h" using "1.prems" by auto
    have "mset (heapUp lt (swapAt h ?i j) ?i) = mset (swapAt h ?i j)"
      using "1.IH" [OF refl False] i by simp
    then show ?thesis using False i "1.prems"
      by (subst heapUp.simps) (simp add: Let_def swapAt_mset)
  qed
qed

lemma heapPush_mset: "mset (heapPush lt h x) = add_mset x (mset h)"
  by (simp add: heapPush_def heapUp_mset)

lemma expandEdge_pq:
  "pq (expandEdge srcNode cur e st) = pq st \<or>
   mset (pq (expandEdge srcNode cur e st)) = add_mset (newState srcNode cur e) (mset (pq st))"
  by (auto simp: expandEdge_def Let_def heapPush_mset split: option.splits)

lemma expand_fold_pq:
  "\<exists>es. set es \<subseteq> set edges \<and>
     mset (pq (fold (expandEdge srcNode cur) edges st)) = mset (map (newState srcNode cur) es) + mset (pq st)"
proof (induction edges arbitrary: st)
  case Nil
  show ?case by (rule exI [of _ "[]"]) simp
next
  case (Cons e edges)
  from Cons.IH [of "expandEdge srcNode cur e st"] obtain es where
    es: "set es \<subseteq> set edges"
    and m: "mset (pq (fold (expandEdge srcNode cur) edges (expandEdge srcNode cur e st))) =
          mset (map (newState srcNode cur) es) + mset (pq (expandEdge srcNode cur e st))"
    by blast
  from expandEdge_pq [of srcNode cur e st] show ?case
  proof
    assume "pq (expandEdge srcNode cur e st) = pq st"
    with es m show ?thesis by (intro exI [of _ es]) auto
  next
    assume "mset (pq (expandEdge srcNode cur e st)) = add_mset (newState srcNode cur e) (mset (pq st))"
    with es m show ?thesis by (intro exI [of _ "e # es"]) auto
  qed
qed

lemma dijkstraInit_pq:
  "pq (dijkstraInit srcNode) = [seedState srcNode Horizontal, seedState srcNode Vertical]"
  by (simp add: dijkstraInit_def pushSeed_def Let_def heapPush_def heapUp.simps [of _ _ 0]
      heapUp.simps [of _ _ "Suc 0"] stateLess_def seedState_def)

lemma newState_eq:
  "newState srcNode cur e =
     \<lparr>NodeID = To e, Length = Length cur + Weight e,
      Bends = (if EdgeOrientation e \<noteq> Direction cur \<and> NodeID cur \<noteq> srcNode
               then Bends cur + 1 else Bends cur),
      Direction = EdgeOrientation e, Parent = int (NodeID cur)\<rparr>"
  by (auto simp: newState_def Let_def)

lemma dijkstraStep_pq:
  "\<exists>es. set es \<subseteq> set (Adj rg (NodeID (fst (heapPop stateLess (pq st))))) \<and>
     mset (pq (dijkstraStep rg srcNode dstNode st)) =
       mset (map (newState srcNode (fst (heapPop stateLess (pq st)))) es)
       + mset (snd (heapPop stateLess (pq st)))"
proof -
  obtain cur rest where p: "heapPop stateLess (pq st) = (cur, rest)"
    by (cases "heapPop stateLess (pq st)")
  let ?k = "(NodeID cur, Direction cur)"
  let ?st1 = "st\<lparr>pq := rest, visited := (visited st)(?k := True)\<rparr>"
  consider (a) "visited st ?k" | (b) "\<not> visited st ?k" "NodeID cur = dstNode"
    | (c) "\<not> visited st ?k" "NodeID cur \<noteq> dstNode" by blast
  then show ?thesis
  proof cases
    case a
    then have "pq (dijkstraStep rg srcNode dstNode st) = rest"
      by (simp add: dijkstraStep_def p)
    then show ?thesis using p by (intro exI [of _ "[]"]) simp
  next
    case b
    then have "pq (dijkstraStep rg srcNode dstNode st) = rest"
      by (simp add: dijkstraStep_def p Let_def)
    then show ?thesis using p by (intro exI [of _ "[]"]) simp
  next
    case c
    then have e: "dijkstraStep rg srcNode dstNode st = fold (expandEdge srcNode cur) (Adj rg (NodeID cur)) ?st1"
      by (simp add: dijkstraStep_def p Let_def)
    from expand_fold_pq [of "Adj rg (NodeID cur)" srcNode cur ?st1] show ?thesis
      unfolding e p by simp
  qed
qed




section \<open>The routing order of the edges\<close>

lemma edgePriorityOf_fields:
  "idx (edgePriorityOf ports k) = k"
  "priority (edgePriorityOf ports k) = (if directPair ports k then 0 else 1)"
  "distance (edgePriorityOf ports k) = portDistance ports k"
  by (simp_all add: edgePriorityOf_def directPair_def portDistance_def Let_def)

lemma priorityLess_edgePriorityOf:
  "priorityLess (edgePriorityOf ports j) (edgePriorityOf ports k) =
     (if directPair ports j \<noteq> directPair ports k then directPair ports j
      else portDistance ports k < portDistance ports j)"
  by (simp add: priorityLess_def edgePriorityOf_fields)


lemma w6_order: "edgeRoutingOrder insertionSort w6_ports w6_edges = Some [2, 1, 0]"
  by code_simp




section \<open>Errors and labels of \<^verbatim>\<open>RouteEdges\<close>\<close>

lemma collectEndpoints_nonempty: "acc \<noteq> [] \<Longrightarrow> collectEndpoints es acc \<noteq> []"
  by (induction es arbitrary: acc) (auto simp: Let_def)

lemma collectEndpoints_edges_nonempty: "edges \<noteq> [] \<Longrightarrow> collectEndpoints edges [] \<noteq> []"
  by (cases edges) (auto simp: Let_def intro!: collectEndpoints_nonempty)

lemma collectObjects_nonempty: "edges \<noteq> [] \<Longrightarrow> collectObjects heap edges \<noteq> []"
  by (auto simp: collectObjects_def collectEndpoints_edges_nonempty split: option.splits)

lemma RouteEdges_error_iff:
  "RouteEdges stages srt rnd adjOrder heap edges = Some (Inl msg) \<longleftrightarrow>
     edges \<noteq> [] \<and> collectObjects heap edges = [] \<and> msg = ''grid router: no objects found''"
  by (auto simp: RouteEdges_def Let_def split: option.splits)




subsection \<open>One route per edge\<close>

lemma edgeRoutingOrder_perm:
  assumes "\<And>lt xs. mset (srt lt xs) = mset xs"
    and "edgeRoutingOrder srt ports edges = Some order"
  shows "mset order = mset [0..<length edges]"
proof -
  let ?ps = "map (edgePriorityOf ports) [0..<length edges]"
  from assms(2) have o: "order = map idx (srt priorityLess ?ps)"
    by (auto simp: edgeRoutingOrder_def split: if_splits)
  have "mset order = image_mset idx (mset (srt priorityLess ?ps))"
    unfolding o by (rule mset_map)
  also have "\<dots> = image_mset idx (mset ?ps)" by (simp only: assms(1))
  also have "\<dots> = mset (map idx ?ps)" by (rule mset_map [symmetric])
  also have "map idx ?ps = [0..<length edges]" by (simp add: edgePriorityOf_fields(1) map_idI)
  finally show ?thesis .
qed

lemma routeThroughGraph_routes:
  assumes "routeThroughGraph rnd adjOrder srcPort dstPort s d i st = Some st'"
    and "i < length (loopRoutes st)"
  shows "length (loopRoutes st') = length (loopRoutes st)"
    and "RouteEdgeIdx (loopRoutes st' ! i) = i"
    and "j \<noteq> i \<Longrightarrow> loopRoutes st' ! j = loopRoutes st ! j"
  using assms
  by (auto simp: routeThroughGraph_def straightRoute_def split: option.splits if_splits)

lemma routeEdgeStep_routes:
  assumes "routeEdgeStep rnd adjOrder ports i st = Some st'"
  shows "length (loopRoutes st') = length (loopRoutes st)"
    and "i < length (loopRoutes st)"
    and "RouteEdgeIdx (loopRoutes st' ! i) = i"
    and "j \<noteq> i \<Longrightarrow> loopRoutes st' ! j = loopRoutes st ! j"
proof -
  from assms have i: "i < length (loopRoutes st)"
    by (auto simp: routeEdgeStep_def split: if_splits)
  let ?src = "SrcPorts ports ! i" and ?dst = "DstPorts ports ! i"
  let ?s = "FindNearest (loopGraph st) (Pos ?src)" and ?d = "FindNearest (loopGraph st) (Pos ?dst)"
  show "i < length (loopRoutes st)" by (rule i)
  show "length (loopRoutes st') = length (loopRoutes st)"
    and "RouteEdgeIdx (loopRoutes st' ! i) = i"
    and "j \<noteq> i \<Longrightarrow> loopRoutes st' ! j = loopRoutes st ! j"
  proof -
    consider (straight) "?s = None \<or> ?d = None \<or> ?s = ?d"
      | (graph) "routeThroughGraph rnd adjOrder ?src ?dst (the ?s) (the ?d) i st = Some st'"
      using assms by (auto simp: routeEdgeStep_def Let_def split: if_splits)
    then have "length (loopRoutes st') = length (loopRoutes st) \<and>
        RouteEdgeIdx (loopRoutes st' ! i) = i \<and>
        (j \<noteq> i \<longrightarrow> loopRoutes st' ! j = loopRoutes st ! j)"
    proof cases
      case straight
      then have "st' = st\<lparr>loopRoutes := (loopRoutes st)[i := straightRoute i ?src ?dst]\<rparr>"
        using assms by (auto simp: routeEdgeStep_def Let_def split: if_splits)
      then show ?thesis using i by (simp add: straightRoute_def)
    next
      case graph
      from routeThroughGraph_routes [OF graph i] show ?thesis by simp
    qed
    then show "length (loopRoutes st') = length (loopRoutes st)"
      and "RouteEdgeIdx (loopRoutes st' ! i) = i"
      and "j \<noteq> i \<Longrightarrow> loopRoutes st' ! j = loopRoutes st ! j" by simp_all
  qed
qed

lemma route_fold:
  "fold (\<lambda>i r. Option.bind r (routeEdgeStep rnd adjOrder ports i)) order (Some st) = Some st' \<Longrightarrow>
   length (loopRoutes st') = length (loopRoutes st) \<and>
   (\<forall>i \<in> set order. i < length (loopRoutes st) \<and> RouteEdgeIdx (loopRoutes st' ! i) = i)"
proof (induction order arbitrary: st' rule: rev_induct)
  case Nil
  then show ?case by simp
next
  case (snoc i order)
  from snoc.prems obtain sm where
    m: "fold (\<lambda>i r. Option.bind r (routeEdgeStep rnd adjOrder ports i)) order (Some st) = Some sm"
    and s: "routeEdgeStep rnd adjOrder ports i sm = Some st'"
    by (auto simp: bind_eq_Some_conv)
  note ih = snoc.IH [OF m]
  note st = routeEdgeStep_routes [OF s]
  show ?case
  proof (intro conjI ballI)
    show "length (loopRoutes st') = length (loopRoutes st)" using ih st(1) by simp
  next
    fix k assume k: "k \<in> set (order @ [i])"
    show "k < length (loopRoutes st)"
      using k ih st(2) by auto
    show "RouteEdgeIdx (loopRoutes st' ! k) = k"
    proof (cases "k = i")
      case True
      then show ?thesis using st(3) by simp
    next
      case False
      with k have "k \<in> set order" by simp
      then show ?thesis using ih st(4) [OF False] by simp
    qed
  qed
qed

lemma routeAllEdges_idx:
  assumes perm: "\<And>lt xs. mset (srt lt xs) = mset xs"
    and r: "routeAllEdges srt rnd adjOrder rg ports edges = Some rs"
  shows "length rs = length edges" and "\<forall>i < length edges. RouteEdgeIdx (rs ! i) = i"
proof -
  from r obtain order st' where
    o: "edgeRoutingOrder srt ports edges = Some order"
    and f: "fold (\<lambda>i r. Option.bind r (routeEdgeStep rnd adjOrder ports i)) order
              (Some \<lparr>loopGraph = rg, routedSegments = [],
                     loopRoutes = replicate (length edges) \<lparr>RouteEdgeIdx = 0, Points = []\<rparr>\<rparr>) = Some st'"
    and rs: "rs = loopRoutes st'"
    by (auto simp: routeAllEdges_def split: option.splits)
  from route_fold [OF f] have l: "length (loopRoutes st') = length edges"
    and a: "\<forall>i \<in> set order. RouteEdgeIdx (loopRoutes st' ! i) = i" by simp_all
  have "set order = set [0..<length edges]"
    using edgeRoutingOrder_perm [OF perm o] by (rule mset_eq_setD)
  then show "length rs = length edges" and "\<forall>i < length edges. RouteEdgeIdx (rs ! i) = i"
    using l a rs by auto
qed

subsection \<open>Applying the routes\<close>

lemma applyRoute_Some:
  assumes "applyRoute stages heap route edges = Some edges'"
  shows "length edges' = length edges"
    and "RouteEdgeIdx route < length edges"
    and "labelled (edges ! RouteEdgeIdx route) (edges' ! RouteEdgeIdx route)"
    and "j \<noteq> RouteEdgeIdx route \<Longrightarrow> edges' ! j = edges ! j"
  using assms
  by (auto simp: applyRoute_def Let_def labelled_def split: if_splits)

lemma apply_fold:
  assumes "\<forall>k < length rs. RouteEdgeIdx (rs ! k) = k"
    and "fold (\<lambda>route r. Option.bind r (applyRoute stages heap route)) rs (Some edges) = Some edges'"
  shows "length edges' = length edges \<and>
         (\<forall>i < length rs. labelled (edges ! i) (edges' ! i)) \<and>
         (\<forall>i \<ge> length rs. edges' ! i = edges ! i)"
  using assms
proof (induction rs arbitrary: edges' rule: rev_induct)
  case Nil
  then show ?case by simp
next
  case (snoc r rs)
  from snoc.prems(2) obtain em where
    m: "fold (\<lambda>route r. Option.bind r (applyRoute stages heap route)) rs (Some edges) = Some em"
    and s: "applyRoute stages heap r em = Some edges'"
    by (auto simp: bind_eq_Some_conv)
  have idx: "\<forall>k < length rs. RouteEdgeIdx (rs ! k) = k"
  proof (intro allI impI)
    fix k assume "k < length rs"
    then show "RouteEdgeIdx (rs ! k) = k" using snoc.prems(1) [rule_format, of k] by (simp add: nth_append)
  qed
  have r: "RouteEdgeIdx r = length rs"
    using snoc.prems(1) [rule_format, of "length rs"] by simp
  note ih = snoc.IH [OF idx m]
  note a = applyRoute_Some [OF s]
  show ?case
  proof (intro conjI allI impI)
    show "length edges' = length edges" using ih a(1) by simp
  next
    fix i assume i: "i < length (rs @ [r])"
    show "labelled (edges ! i) (edges' ! i)"
    proof (cases "i = length rs")
      case True
      then show ?thesis using a(3) r ih by simp
    next
      case False
      with i have "i < length rs" by simp
      then show ?thesis using ih a(4) [of i] r False by simp
    qed
  next
    fix i assume "length (rs @ [r]) \<le> i"
    then show "edges' ! i = edges ! i" using ih a(4) [of i] r by simp
  qed
qed

text \<open>
  Claim C10: when \<^verbatim>\<open>RouteEdges\<close> succeeds (with a sort that permutes its input), it
  returns as many edges as it was given, no label text is changed, every edge with a
  non-empty label text has the label position \<^verbatim>\<open>INSIDE_MIDDLE_CENTER\<close>, whatever position
  it had before, and every edge with an empty label text keeps its label position.
\<close>

theorem RouteEdges_label_positions:
  assumes "\<And>lt xs. mset (srt lt xs) = mset xs"
    and "RouteEdges stages srt rnd adjOrder heap edges = Some (Inr edges')"
  shows "length edges' = length edges \<and>
         (\<forall>i < length edges.
            LabelValue (edges' ! i) = LabelValue (edges ! i) \<and>
            LabelPosition (edges' ! i) =
              (if LabelValue (edges ! i) \<noteq> [] then Some InsideMiddleCenter_String
               else LabelPosition (edges ! i)))"
proof (cases "length edges = 0")
  case True
  then show ?thesis using assms(2) by (simp add: RouteEdges_def)
next
  case False
  let ?all = "collectObjects heap edges"
  let ?boxes = "map (\<lambda>ob. boxOf (heap ob)) ?all"
  let ?bbox = "computeBoundingBox ?boxes"
  let ?ports = "stAssignPorts stages ?boxes edges (nodeIndexOf ?all)"
  let ?channels = "stFindChannels stages ?boxes ?bbox"
  let ?rg = "stBuildRoutingGraph stages ?channels ?ports ?boxes ?bbox"
  from assms(2) False obtain rs where
    rs: "routeAllEdges srt rnd adjOrder ?rg ?ports edges = Some rs"
    and f: "fold (\<lambda>route r. Option.bind r (applyRoute stages heap route))
              (map (\<lambda>k. (rs ! k)\<lparr>Points := stNudgedPoints stages rs ?channels ?boxes k\<rparr>) [0..<length rs])
              (Some edges) = Some edges'"
    by (auto simp: RouteEdges_def Let_def split: option.splits if_splits)
  note ri = routeAllEdges_idx [OF assms(1) rs]
  let ?nudged = "map (\<lambda>k. (rs ! k)\<lparr>Points := stNudgedPoints stages rs ?channels ?boxes k\<rparr>) [0..<length rs]"
  have n: "\<forall>k < length ?nudged. RouteEdgeIdx (?nudged ! k) = k"
    using ri by simp
  from apply_fold [OF n f] ri(1) show ?thesis by (simp add: labelled_def)
qed


lemma w10_RouteEdges:
  "RouteEdges w10_stages insertionSort (\<lambda>w. w) [0, 1, 2, 3] w10_heap w10_edges = Some (Inr w10_routed)"
  by code_simp

theorem RouteEdges_label_positions_witness:
  "RouteEdges w10_stages insertionSort (\<lambda>w. w) [0, 1, 2, 3] w10_heap w10_edges = Some (Inr w10_routed)
   \<and> LabelPosition (w10_edges ! 0) = Some ''OUTSIDE_TOP_CENTER''
   \<and> LabelPosition (w10_routed ! 0) = Some InsideMiddleCenter_String
   \<and> LabelPosition (w10_routed ! 1) = Some ''OUTSIDE_TOP_CENTER''"
proof -
  from RouteEdges_label_positions [of insertionSort w10_stages "\<lambda>w. w" "[0, 1, 2, 3]" w10_heap
         w10_edges w10_routed, OF mset_insertionSort w10_RouteEdges]
  have a: "\<forall>i < length w10_edges.
            LabelValue (w10_routed ! i) = LabelValue (w10_edges ! i) \<and>
            LabelPosition (w10_routed ! i) =
              (if LabelValue (w10_edges ! i) \<noteq> [] then Some InsideMiddleCenter_String
               else LabelPosition (w10_edges ! i))"
    by (rule conjunct2)
  have l: "length w10_edges = 2" by (simp add: w10_edges_def)
  from a [rule_format, of 0] a [rule_format, of 1] l w10_RouteEdges
  show ?thesis by (simp add: w10_edges_def)
qed

section \<open>Grid placement: two nodes in one cell\<close>

subsection \<open>The cells \<^verbatim>\<open>findBestCell\<close> can return\<close>

lemma find_cases:
  "find P xs = Some y \<Longrightarrow> y \<in> set xs \<and> P y"
  by (auto simp: find_Some_iff)

lemma ring_bound: "d \<in> set (ring radius) \<Longrightarrow> \<bar>fst d\<bar> \<le> radius \<and> \<bar>snd d\<bar> \<le> radius"
  by (auto simp: ring_def)

lemma spiral_bound: "d \<in> set spiral \<Longrightarrow> \<bar>fst d\<bar> \<le> 20 \<and> \<bar>snd d\<bar> \<le> 20"
proof -
  assume "d \<in> set spiral"
  then have "d \<in> \<Union> (set ` ring ` {2..20})"
    unfolding spiral_def set_concat set_map set_upto .
  then obtain radius where r: "radius \<le> 20" and d: "d \<in> set (ring radius)"
    by auto
  from ring_bound [OF d] r show ?thesis by linarith
qed

lemma findBestCell_near_or_far:
  "findBestCell center occ dirs maxCols = \<lparr>row = row center, col = col center + 100\<rparr> \<or>
   (findBestCell center occ dirs maxCols
      \<in> set (map (\<lambda>d. \<lparr>row = row center + row d, col = col center + col d\<rparr>) dirs)
        \<union> set (map (cellAt center) spiral)
    \<and> findBestCell center occ dirs maxCols \<notin> occ)"
  unfolding findBestCell_def Let_def
  by (auto split: option.splits dest!: find_cases)

lemma findBestCell_cases:
  assumes dirs: "\<forall>d \<in> set dirs. \<bar>row d\<bar> \<le> 1 \<and> \<bar>col d\<bar> \<le> 1"
  shows "findBestCell center occ dirs maxCols = \<lparr>row = row center, col = col center + 100\<rparr> \<or>
         (\<bar>row (findBestCell center occ dirs maxCols) - row center\<bar> \<le> 20 \<and>
          \<bar>col (findBestCell center occ dirs maxCols) - col center\<bar> \<le> 20 \<and>
          findBestCell center occ dirs maxCols \<notin> occ)"
proof -
  let ?near = "map (\<lambda>d. \<lparr>row = row center + row d, col = col center + col d\<rparr>) dirs"
  let ?far = "map (cellAt center) spiral"
  let ?ok = "\<lambda>c. \<bar>row c - row center\<bar> \<le> 20 \<and> \<bar>col c - col center\<bar> \<le> 20"
  have near: "?ok c" if "c \<in> set ?near" for c
  proof -
    from that obtain d where "d \<in> set dirs" and c: "c = \<lparr>row = row center + row d, col = col center + col d\<rparr>"
      by auto
    with dirs have "\<bar>row d\<bar> \<le> 1 \<and> \<bar>col d\<bar> \<le> 1" by blast
    then show ?thesis unfolding c by simp
  qed
  have far: "?ok c" if "c \<in> set ?far" for c
  proof -
    from that obtain d where d: "d \<in> set spiral" and c: "c = cellAt center d" by auto
    from spiral_bound [OF d] show ?thesis unfolding c cellAt_def by simp
  qed
  from findBestCell_near_or_far [of center occ dirs maxCols] near far
  show ?thesis by blast
qed

lemma box_cells:
  "{c :: gridCell. \<bar>row c - a\<bar> \<le> k \<and> \<bar>col c - b\<bar> \<le> k}
     \<subseteq> (\<lambda>p. \<lparr>row = fst p, col = snd p\<rparr>) ` ({a - k..a + k} \<times> {b - k..b + k})"
proof
  fix c :: gridCell
  assume "c \<in> {c. \<bar>row c - a\<bar> \<le> k \<and> \<bar>col c - b\<bar> \<le> k}"
  then have "(row c, col c) \<in> {a - k..a + k} \<times> {b - k..b + k}" by auto
  moreover have "c = (\<lambda>p. \<lparr>row = fst p, col = snd p\<rparr>) (row c, col c)" by simp
  ultimately show "c \<in> (\<lambda>p. \<lparr>row = fst p, col = snd p\<rparr>) ` ({a - k..a + k} \<times> {b - k..b + k})"
    by (rule image_eqI [rotated])
qed

lemma box_card:
  assumes "0 \<le> k"
  shows "finite {c :: gridCell. \<bar>row c - a\<bar> \<le> k \<and> \<bar>col c - b\<bar> \<le> k}"
    and "card {c :: gridCell. \<bar>row c - a\<bar> \<le> k \<and> \<bar>col c - b\<bar> \<le> k} \<le> nat ((2 * k + 1) * (2 * k + 1))"
proof -
  let ?S = "{a - k..a + k} \<times> {b - k..b + k}"
  let ?f = "\<lambda>p :: int \<times> int. \<lparr>row = fst p, col = snd p\<rparr>"
  have f: "finite (?f ` ?S)" by simp
  show "finite {c :: gridCell. \<bar>row c - a\<bar> \<le> k \<and> \<bar>col c - b\<bar> \<le> k}"
    by (rule finite_subset [OF box_cells f])
  have "card {c :: gridCell. \<bar>row c - a\<bar> \<le> k \<and> \<bar>col c - b\<bar> \<le> k} \<le> card (?f ` ?S)"
    by (rule card_mono [OF f box_cells])
  also have "\<dots> \<le> card ?S" by (rule card_image_le) simp
  also have "\<dots> = nat (2 * k + 1) * nat (2 * k + 1)" by (simp add: card_cartesian_product)
  also have "\<dots> = nat ((2 * k + 1) * (2 * k + 1))" using assms by (simp add: nat_mult_distrib)
  finally show "card {c :: gridCell. \<bar>row c - a\<bar> \<le> k \<and> \<bar>col c - b\<bar> \<le> k} \<le> nat ((2 * k + 1) * (2 * k + 1))" .
qed

subsection \<open>Placing the neighbours of one node\<close>

lemma placeNeighbor_new:
  assumes dirs: "\<forall>d \<in> set dirs \<union> set (reverseDirs dirs). \<bar>row d\<bar> \<le> 1 \<and> \<bar>col d\<bar> \<le> 1"
    and nb: "nb \<notin> bfsVisited st"
  shows "\<exists>cell. placeNeighbor out dirs mc cur curCell nb st =
           st\<lparr>bfsVisited := insert nb (bfsVisited st),
              bfsPlacement := (bfsPlacement st)(nb := cell),
              bfsOccupied := insert cell (bfsOccupied st),
              bfsQueue := bfsQueue st @ [nb]\<rparr>
         \<and> (cell = \<lparr>row = row curCell, col = col curCell + 100\<rparr> \<or>
            (\<bar>row cell - row curCell\<bar> \<le> 20 \<and> \<bar>col cell - col curCell\<bar> \<le> 20 \<and>
             cell \<notin> bfsOccupied st))"
proof -
  let ?pd = "if nb \<in> out cur then dirs else reverseDirs dirs"
  let ?cell = "findBestCell curCell (bfsOccupied st) ?pd mc"
  have "\<forall>d \<in> set ?pd. \<bar>row d\<bar> \<le> 1 \<and> \<bar>col d\<bar> \<le> 1" using dirs by auto
  from findBestCell_cases [OF this, of curCell "bfsOccupied st" mc]
  have c: "?cell = \<lparr>row = row curCell, col = col curCell + 100\<rparr> \<or>
            (\<bar>row ?cell - row curCell\<bar> \<le> 20 \<and> \<bar>col ?cell - col curCell\<bar> \<le> 20 \<and>
             ?cell \<notin> bfsOccupied st)" .
  have "placeNeighbor out dirs mc cur curCell nb st =
           st\<lparr>bfsVisited := insert nb (bfsVisited st),
              bfsPlacement := (bfsPlacement st)(nb := ?cell),
              bfsOccupied := insert ?cell (bfsOccupied st),
              bfsQueue := bfsQueue st @ [nb]\<rparr>"
    using nb by (simp add: placeNeighbor_def Let_def)
  with c show ?thesis by blast
qed

lemma place_fold:
  assumes dirs: "\<forall>d \<in> set dirs \<union> set (reverseDirs dirs). \<bar>row d\<bar> \<le> 1 \<and> \<bar>col d\<bar> \<le> 1"
  shows "distinct xs \<Longrightarrow> set xs \<inter> bfsVisited st = {} \<Longrightarrow>
    bfsVisited (fold (placeNeighbor out dirs mc cur curCell) xs st) = bfsVisited st \<union> set xs \<and>
    bfsQueue (fold (placeNeighbor out dirs mc cur curCell) xs st) = bfsQueue st @ xs \<and>
    (\<forall>y. y \<notin> set xs \<longrightarrow>
       bfsPlacement (fold (placeNeighbor out dirs mc cur curCell) xs st) y = bfsPlacement st y) \<and>
    (\<forall>x \<in> set xs.
       bfsPlacement (fold (placeNeighbor out dirs mc cur curCell) xs st) x
         = \<lparr>row = row curCell, col = col curCell + 100\<rparr> \<or>
       (\<bar>row (bfsPlacement (fold (placeNeighbor out dirs mc cur curCell) xs st) x) - row curCell\<bar> \<le> 20 \<and>
        \<bar>col (bfsPlacement (fold (placeNeighbor out dirs mc cur curCell) xs st) x) - col curCell\<bar> \<le> 20 \<and>
        bfsPlacement (fold (placeNeighbor out dirs mc cur curCell) xs st) x \<notin> bfsOccupied st)) \<and>
    inj_on (bfsPlacement (fold (placeNeighbor out dirs mc cur curCell) xs st))
       {x \<in> set xs. bfsPlacement (fold (placeNeighbor out dirs mc cur curCell) xs st) x
                       \<noteq> \<lparr>row = row curCell, col = col curCell + 100\<rparr>}"
proof (induction xs arbitrary: st)
  case Nil
  then show ?case by simp
next
  case (Cons x xs)
  let ?F = "\<lparr>row = row curCell, col = col curCell + 100\<rparr>"
  let ?f = "placeNeighbor out dirs mc cur curCell"
  from Cons.prems have x: "x \<notin> bfsVisited st" and xx: "x \<notin> set xs" and d: "distinct xs" by auto
  from placeNeighbor_new [OF dirs x, of out mc cur curCell] obtain cell where
    s1: "?f x st = st\<lparr>bfsVisited := insert x (bfsVisited st),
              bfsPlacement := (bfsPlacement st)(x := cell),
              bfsOccupied := insert cell (bfsOccupied st),
              bfsQueue := bfsQueue st @ [x]\<rparr>"
    and cell: "cell = ?F \<or> (\<bar>row cell - row curCell\<bar> \<le> 20 \<and> \<bar>col cell - col curCell\<bar> \<le> 20 \<and>
             cell \<notin> bfsOccupied st)"
    by blast
  define st1 where "st1 = ?f x st"
  define st' where "st' = fold ?f xs st1"
  have v1: "bfsVisited st1 = insert x (bfsVisited st)"
    and q1: "bfsQueue st1 = bfsQueue st @ [x]"
    and p1: "bfsPlacement st1 = (bfsPlacement st)(x := cell)"
    and o1: "bfsOccupied st1 = insert cell (bfsOccupied st)"
    unfolding st1_def s1 by simp_all
  have dis: "set xs \<inter> bfsVisited st1 = {}" using Cons.prems xx by (auto simp: v1)
  note ih = Cons.IH [OF d dis, folded st'_def]
  have e: "fold ?f (x # xs) st = st'" by (simp add: st'_def st1_def)
  have px: "bfsPlacement st' x = cell" using ih xx by (simp add: p1)
  have a: "bfsVisited st' = bfsVisited st \<union> set (x # xs)" using ih by (auto simp: v1)
  have b: "bfsQueue st' = bfsQueue st @ x # xs" using ih by (simp add: q1)
  have c: "\<forall>y. y \<notin> set (x # xs) \<longrightarrow> bfsPlacement st' y = bfsPlacement st y"
    using ih by (simp add: p1)
  have rest: "bfsPlacement st' y = ?F \<or>
       (\<bar>row (bfsPlacement st' y) - row curCell\<bar> \<le> 20 \<and>
        \<bar>col (bfsPlacement st' y) - col curCell\<bar> \<le> 20 \<and>
        bfsPlacement st' y \<notin> bfsOccupied st \<and> bfsPlacement st' y \<noteq> cell)" if "y \<in> set xs" for y
    using ih that by (auto simp: o1)
  have dd: "\<forall>y \<in> set (x # xs). bfsPlacement st' y = ?F \<or>
       (\<bar>row (bfsPlacement st' y) - row curCell\<bar> \<le> 20 \<and>
        \<bar>col (bfsPlacement st' y) - col curCell\<bar> \<le> 20 \<and>
        bfsPlacement st' y \<notin> bfsOccupied st)"
  proof
    fix y assume "y \<in> set (x # xs)"
    then consider "y = x" | "y \<in> set xs" by auto
    then show "bfsPlacement st' y = ?F \<or>
       (\<bar>row (bfsPlacement st' y) - row curCell\<bar> \<le> 20 \<and>
        \<bar>col (bfsPlacement st' y) - col curCell\<bar> \<le> 20 \<and>
        bfsPlacement st' y \<notin> bfsOccupied st)"
    proof cases
      case 1
      then show ?thesis using cell px by simp
    next
      case 2
      from rest [OF 2] show ?thesis by blast
    qed
  qed
  have inj: "inj_on (bfsPlacement st') {y \<in> set (x # xs). bfsPlacement st' y \<noteq> ?F}"
  proof (rule inj_onI)
    fix y z
    assume y: "y \<in> {y \<in> set (x # xs). bfsPlacement st' y \<noteq> ?F}"
      and z: "z \<in> {y \<in> set (x # xs). bfsPlacement st' y \<noteq> ?F}"
      and eq: "bfsPlacement st' y = bfsPlacement st' z"
    from ih have i: "inj_on (bfsPlacement st') {y \<in> set xs. bfsPlacement st' y \<noteq> ?F}" by simp
    show "y = z"
    proof (cases "y = x")
      case True
      show ?thesis
      proof (cases "z = x")
        case True
        with \<open>y = x\<close> show ?thesis by simp
      next
        case False
        with z have "z \<in> set xs" and "bfsPlacement st' z \<noteq> ?F" by auto
        with rest [of z] have "bfsPlacement st' z \<noteq> cell" by blast
        with eq True px show ?thesis by simp
      qed
    next
      case False
      with y have yy: "y \<in> set xs" and yF: "bfsPlacement st' y \<noteq> ?F" by auto
      show ?thesis
      proof (cases "z = x")
        case True
        from rest [OF yy] yF have "bfsPlacement st' y \<noteq> cell" by blast
        with eq True px show ?thesis by simp
      next
        case False
        with z have "z \<in> {y \<in> set xs. bfsPlacement st' y \<noteq> ?F}" by auto
        moreover from yy yF have "y \<in> {y \<in> set xs. bfsPlacement st' y \<noteq> ?F}" by simp
        ultimately show ?thesis using i eq by (auto dest: inj_onD)
      qed
    qed
  qed
  from a b c dd inj show ?case unfolding e by blast
qed

subsection \<open>The adjacency lists of a star\<close>

lemma objIndex_fold_upt:
  "k \<le> n \<Longrightarrow> fold (\<lambda>i m. m([0..<n] ! i \<mapsto> i)) [0..<k] Map.empty = (\<lambda>r. if r < k then Some r else None)"
proof (induction k)
  case 0
  then show ?case by simp
next
  case (Suc k)
  from Suc.prems have k: "k < n" by simp
  then have "k \<le> n" by simp
  note ih = Suc.IH [OF this]
  have l: "[0..<Suc k] = [0..<k] @ [k]" by simp
  show ?case
    unfolding l fold_append comp_def ih
    using k by (auto simp: fun_eq_iff)
qed

lemma objIndex_upt: "objIndex [0..<n] = (\<lambda>r. if r < n then Some r else None)"
  unfolding objIndex_def using objIndex_fold_upt [of n n] by simp

lemma star_addEdge_fold:
  assumes oi: "oi = (\<lambda>r. if r < m + 1 then Some r else None)"
  shows "k \<le> m \<Longrightarrow>
   fold (addEdge oi) (map (\<lambda>i. (0, i)) [1..<k + 1]) (\<lambda>i. [], \<lambda>i. {})
     = (\<lambda>i. if i = 0 then [1..<k + 1] else if i \<le> k then [0] else [],
        \<lambda>i. if i = 0 then {1..k} else {})"
proof (induction k)
  case 0
  then show ?case by (simp add: fun_eq_iff)
next
  case (Suc k)
  from Suc.prems have k: "Suc k \<le> m" by simp
  then have "k \<le> m" by simp
  note ih = Suc.IH [OF this]
  have l: "[1..<Suc k + 1] = [1..<k + 1] @ [Suc k]" by simp
  have s: "{1..Suc k} = insert (Suc k) {1..k}" by auto
  have o: "oi 0 = Some 0" "oi (Suc k) = Some (Suc k)" using k by (simp_all add: oi)
  show ?case
    unfolding l map_append fold_append comp_def ih
    by (auto simp add: addEdge_def o Let_def fun_eq_iff)
qed

lemma dedupNeighbors_distinct:
  "distinct xs \<Longrightarrow> set xs \<inter> seen = {} \<Longrightarrow> dedupNeighbors xs seen = xs"
  by (induction xs arbitrary: seen) auto

lemma star_buildAdj:
  "buildAdj (starGraph m)
     = (\<lambda>i. if i = 0 then [1..<m + 1] else if i \<le> m then [0] else [],
        \<lambda>i. if i = 0 then {1..m} else {})"
proof -
  have "fold (addEdge (objIndex (RootChildren (starGraph m)))) (GraphEdges (starGraph m)) (\<lambda>i. [], \<lambda>i. {})
     = (\<lambda>i. if i = 0 then [1..<m + 1] else if i \<le> m then [0] else [],
        \<lambda>i. if i = 0 then {1..m} else {})"
    using star_addEdge_fold [OF objIndex_upt, of m m] by (simp add: starGraph_def)
  then show ?thesis
    by (simp add: buildAdj_def Let_def fun_eq_iff dedupNeighbors_distinct)
qed

lemma bfsStart_zero:
  assumes "\<And>i. length (adj i) \<le> length (adj 0)"
  shows "bfsStart n adj = 0"
proof -
  have nl: "\<not> length (adj 0) < length (adj i)" for i
    using assms [of i] by simp
  have "fold (\<lambda>i start. if length (adj i) > length (adj start) then i else start) xs 0 = 0" for xs
    by (induction xs) (simp_all add: nl)
  then show ?thesis by (simp add: bfsStart_def)
qed

lemma bfsDirs_unit:
  "\<forall>d \<in> set (bfsDirs g) \<union> set (reverseDirs (bfsDirs g)). \<bar>row d\<bar> \<le> 1 \<and> \<bar>col d\<bar> \<le> 1"
  by (auto simp: bfsDirs_def reverseDirs_def)

subsection \<open>The breadth-first loop\<close>

lemma bfsLoop_drain:
  assumes perm: "\<And>lt xs. mset (srt lt xs) = mset xs"
  shows "\<forall>x \<in> set (bfsQueue st). set (adj x) \<subseteq> bfsVisited st \<Longrightarrow>
         bfsLoop srt adj out dirs mc st = Some (st\<lparr>bfsQueue := []\<rparr>)"
proof (induction q \<equiv> "bfsQueue st" arbitrary: st)
  case Nil
  then have "bfsQueue st = []" by simp
  then show ?case by (subst bfsLoop.simps) simp
next
  case (Cons cur rest)
  from Cons.hyps(2) have q: "bfsQueue st = cur # rest" by simp
  with Cons.prems have cur: "set (adj cur) \<subseteq> bfsVisited st"
    and rest: "\<forall>x \<in> set rest. set (adj x) \<subseteq> bfsVisited st" by simp_all
  from cur have "filter (\<lambda>nb. nb \<notin> bfsVisited st) (adj cur) = []"
    by (auto simp: filter_empty_conv)
  moreover have "srt (neighborLess adj (out cur)) [] = []"
    using perm [of "neighborLess adj (out cur)" "[]"] by simp
  ultimately have step: "bfsStep srt adj out dirs mc cur (st\<lparr>bfsQueue := rest\<rparr>) = st\<lparr>bfsQueue := rest\<rparr>"
    by (simp add: bfsStep_def Let_def)
  have "bfsLoop srt adj out dirs mc (st\<lparr>bfsQueue := rest\<rparr>) = Some (st\<lparr>bfsQueue := rest\<rparr>\<lparr>bfsQueue := []\<rparr>)"
    by (rule Cons.hyps(1)) (simp_all add: rest)
  then show ?case
    by (subst bfsLoop.simps) (simp add: q step)
qed

lemma placeDisconnected_visited:
  "\<forall>i \<in> set xs. i \<in> bfsVisited st \<Longrightarrow> fold placeDisconnected xs st = st"
  by (induction xs) (simp_all add: placeDisconnected_def)

subsection \<open>How far \<^verbatim>\<open>localImprove\<close> moves a node\<close>

lemma tryMoves_other:
  "j \<noteq> i \<Longrightarrow> impPlacement (tryMoves n adj i origCell ds st) j = impPlacement st j"
  by (induction ds arbitrary: st) (simp_all add: Let_def)

lemma tryMoves_self:
  assumes "\<forall>d \<in> set ds. \<bar>row d\<bar> \<le> 1 \<and> \<bar>col d\<bar> \<le> 1"
    and "impPlacement st i = origCell"
  shows "\<bar>row (impPlacement (tryMoves n adj i origCell ds st) i) - row origCell\<bar> \<le> 1 \<and>
         \<bar>col (impPlacement (tryMoves n adj i origCell ds st) i) - col origCell\<bar> \<le> 1"
  using assms
proof (induction ds arbitrary: st)
  case Nil
  then show ?case by simp
next
  case (Cons d ds)
  from Cons.prems(1) have d: "\<bar>row d\<bar> \<le> 1 \<and> \<bar>col d\<bar> \<le> 1"
    and ds: "\<forall>d \<in> set ds. \<bar>row d\<bar> \<le> 1 \<and> \<bar>col d\<bar> \<le> 1" by simp_all
  let ?candidate = "\<lparr>row = row origCell + row d, col = col origCell + col d\<rparr>"
  let ?occ1 = "insert ?candidate (impOccupied st - {origCell})"
  let ?pl1 = "(impPlacement st)(i := ?candidate)"
  let ?st2 = "st\<lparr>impPlacement := ?pl1(i := origCell), impOccupied := insert origCell (?occ1 - {?candidate})\<rparr>"
  consider (occ) "?candidate \<in> impOccupied st"
    | (accept) "?candidate \<notin> impOccupied st" "totalCost n adj ?pl1 ?occ1 < impBaseline st"
    | (revert) "?candidate \<notin> impOccupied st" "\<not> totalCost n adj ?pl1 ?occ1 < impBaseline st"
    by blast
  then show ?case
  proof cases
    case occ
    then have "tryMoves n adj i origCell (d # ds) st = tryMoves n adj i origCell ds st"
      by (simp add: Let_def)
    with Cons.IH [OF ds Cons.prems(2)] show ?thesis by simp
  next
    case accept
    then have "impPlacement (tryMoves n adj i origCell (d # ds) st) i = ?candidate"
      by (simp add: Let_def)
    with d show ?thesis by simp
  next
    case revert
    then have e: "tryMoves n adj i origCell (d # ds) st = tryMoves n adj i origCell ds ?st2"
      by (simp add: Let_def)
    have "impPlacement ?st2 i = origCell" by simp
    from Cons.IH [OF ds this] show ?thesis unfolding e .
  qed
qed

lemma moveDirs_unit: "\<forall>d \<in> set moveDirs. \<bar>row d\<bar> \<le> 1 \<and> \<bar>col d\<bar> \<le> 1"
  by (simp add: moveDirs_def)

lemma moveNode_other: "j \<noteq> i \<Longrightarrow> impPlacement (moveNode n adj i st) j = impPlacement st j"
  by (simp add: moveNode_def tryMoves_other)

lemma moveNode_self:
  "\<bar>row (impPlacement (moveNode n adj i st) i) - row (impPlacement st i)\<bar> \<le> 1 \<and>
   \<bar>col (impPlacement (moveNode n adj i st) i) - col (impPlacement st i)\<bar> \<le> 1"
  unfolding moveNode_def by (rule tryMoves_self [OF moveDirs_unit refl])

lemma move_fold:
  "distinct xs \<Longrightarrow>
     (j \<notin> set xs \<longrightarrow> impPlacement (fold (moveNode n adj) xs st) j = impPlacement st j) \<and>
     \<bar>row (impPlacement (fold (moveNode n adj) xs st) j) - row (impPlacement st j)\<bar> \<le> 1 \<and>
     \<bar>col (impPlacement (fold (moveNode n adj) xs st) j) - col (impPlacement st j)\<bar> \<le> 1"
proof (induction xs arbitrary: st)
  case Nil
  then show ?case by simp
next
  case (Cons x xs)
  then have x: "x \<notin> set xs" and d: "distinct xs" by simp_all
  note ih = Cons.IH [OF d, of "moveNode n adj x st"]
  show ?case
  proof (cases "j = x")
    case True
    with ih x have "impPlacement (fold (moveNode n adj) (x # xs) st) j = impPlacement (moveNode n adj x st) x"
      by simp
    with moveNode_self [of n adj x st] True show ?thesis by simp
  next
    case False
    with ih moveNode_other [OF False, of n adj st] show ?thesis by simp
  qed
qed

lemma swapPair_other:
  "k \<noteq> fst ij \<Longrightarrow> k \<noteq> snd ij \<Longrightarrow> impPlacement (swapPair n adj ij st) k = impPlacement st k"
  by (simp add: swapPair_def Let_def)

lemma swap_fold:
  "\<forall>p \<in> set ps. fst p < 30 \<and> snd p < 30 \<Longrightarrow> 30 \<le> k \<Longrightarrow>
   impPlacement (fold (swapPair n adj) ps st) k = impPlacement st k"
proof (induction ps arbitrary: st)
  case Nil
  then show ?case by simp
next
  case (Cons p ps)
  then have "k \<noteq> fst p" "k \<noteq> snd p" by auto
  from swapPair_other [OF this] Cons show ?case by simp
qed

lemma swapPairs_bound: "\<forall>p \<in> set (swapPairs n). fst p < 30 \<and> snd p < 30"
  by (auto simp: swapPairs_def)

lemma improveIters_bound:
  "30 \<le> k \<Longrightarrow>
   \<bar>row (fst (improveIters it n adj po) k) - row (fst po k)\<bar> \<le> int it \<and>
   \<bar>col (fst (improveIters it n adj po) k) - col (fst po k)\<bar> \<le> int it"
proof (induction it arbitrary: po)
  case 0
  then show ?case by simp
next
  case (Suc it)
  define st0 where "st0 = \<lparr>impPlacement = fst po, impOccupied = snd po,
               impBaseline = totalCost n adj (fst po) (snd po), impImproved = False\<rparr>"
  define st1 where "st1 = fold (moveNode n adj) [0..<n] st0"
  define st2 where "st2 = fold (swapPair n adj) (swapPairs n) st1"
  define po2 where "po2 = (impPlacement st2, impOccupied st2)"
  have m: "\<bar>row (impPlacement st1 k) - row (fst po k)\<bar> \<le> 1 \<and>
           \<bar>col (impPlacement st1 k) - col (fst po k)\<bar> \<le> 1"
    using move_fold [of "[0..<n]" k n adj st0] by (simp add: st1_def st0_def)
  have s: "impPlacement st2 k = impPlacement st1 k"
    unfolding st2_def by (rule swap_fold [OF swapPairs_bound Suc.prems])
  have p: "fst po2 k = impPlacement st1 k" by (simp add: po2_def s)
  note ih = Suc.IH [OF Suc.prems, of po2, unfolded p]
  have e: "improveIters (Suc it) n adj po = (if \<not> impImproved st2 then po2 else improveIters it n adj po2)"
    by (simp add: Let_def st0_def st1_def st2_def po2_def)
  show ?case
  proof (cases "impImproved st2")
    case False
    then have "fst (improveIters (Suc it) n adj po) k = impPlacement st1 k"
      unfolding e by (simp add: p)
    with m show ?thesis by simp
  next
    case True
    then have f: "improveIters (Suc it) n adj po = improveIters it n adj po2"
      unfolding e by simp
    have "\<bar>row (fst (improveIters it n adj po2) k) - row (fst po k)\<bar> \<le> int (Suc it)"
      using ih m by linarith
    moreover have "\<bar>col (fst (improveIters it n adj po2) k) - col (fst po k)\<bar> \<le> int (Suc it)"
      using ih m by linarith
    ultimately show ?thesis unfolding f by simp
  qed
qed

lemma localImprove_bound:
  "30 \<le> k \<Longrightarrow>
   \<bar>row (fst (localImprove n adj 5 po) k) - row (fst po k)\<bar> \<le> 5 \<and>
   \<bar>col (fst (localImprove n adj 5 po) k) - col (fst po k)\<bar> \<le> 5"
  using improveIters_bound [of k 5 n adj po] by (simp add: localImprove_def)

subsection \<open>The placement of a star\<close>

lemma star_bfs:
  assumes perm: "\<And>lt xs. mset (srt lt xs) = mset xs"
    and adj: "adj = (\<lambda>i. if i = 0 then [1..<m + 1] else if i \<le> m then [0] else [])"
    and dirs: "\<forall>d \<in> set dirs \<union> set (reverseDirs dirs). \<bar>row d\<bar> \<le> 1 \<and> \<bar>col d\<bar> \<le> 1"
  shows "\<exists>st. bfsLoop srt adj out dirs mc
                 \<lparr>bfsPlacement = (\<lambda>i. \<lparr>row = 0, col = 0\<rparr>)(0 := \<lparr>row = 0, col = 0\<rparr>),
                  bfsOccupied = {\<lparr>row = 0, col = 0\<rparr>}, bfsVisited = {0}, bfsQueue = [0]\<rparr> = Some st
           \<and> bfsVisited st = {0..m}
           \<and> (\<forall>x \<in> {1..m}. bfsPlacement st x = \<lparr>row = 0, col = 100\<rparr> \<or>
                 (\<bar>row (bfsPlacement st x) - 0\<bar> \<le> 20 \<and> \<bar>col (bfsPlacement st x) - 0\<bar> \<le> 20))
           \<and> inj_on (bfsPlacement st) {x \<in> {1..m}. bfsPlacement st x \<noteq> \<lparr>row = 0, col = 100\<rparr>}"
proof -
  define origin where "origin = \<lparr>row = 0, col = 0\<rparr>"
  define st0 where "st0 = \<lparr>bfsPlacement = (\<lambda>i. origin)(0 := origin),
                  bfsOccupied = {origin}, bfsVisited = {0::nat}, bfsQueue = [0::nat]\<rparr>"
  define xs where "xs = srt (neighborLess adj (out 0)) [1..<m + 1]"
  define st1 where "st1 = fold (placeNeighbor out dirs mc 0 origin) xs (st0\<lparr>bfsQueue := []\<rparr>)"
  have mx: "mset xs = mset [1..<m + 1]" unfolding xs_def by (rule perm)
  have sx: "set xs = {1..m}" using mset_eq_setD [OF mx] by auto
  have dx: "distinct xs" using mset_eq_imp_distinct_iff [OF mx] by simp
  have nb: "filter (\<lambda>nb. nb \<notin> bfsVisited (st0\<lparr>bfsQueue := []\<rparr>)) (adj 0) = [1..<m + 1]"
    by (auto simp: st0_def adj filter_id_conv)
  have step: "bfsStep srt adj out dirs mc 0 (st0\<lparr>bfsQueue := []\<rparr>) = st1"
    unfolding bfsStep_def Let_def nb st1_def xs_def by (simp add: st0_def)
  have dis: "set xs \<inter> bfsVisited (st0\<lparr>bfsQueue := []\<rparr>) = {}"
    by (auto simp: sx st0_def)
  note pf = place_fold [OF dirs dx dis, of out mc 0 origin, folded st1_def]
  have v: "bfsVisited st1 = {0..m}" using pf by (auto simp: st0_def sx)
  have q: "bfsQueue st1 = xs" using pf by (simp add: st0_def)
  have F: "\<lparr>row = row origin, col = col origin + 100\<rparr> = \<lparr>row = 0, col = 100\<rparr>"
    by (simp add: origin_def)
  have p: "\<forall>x \<in> {1..m}. bfsPlacement st1 x = \<lparr>row = 0, col = 100\<rparr> \<or>
                 (\<bar>row (bfsPlacement st1 x) - 0\<bar> \<le> 20 \<and> \<bar>col (bfsPlacement st1 x) - 0\<bar> \<le> 20)"
    using pf unfolding F sx by (auto simp: origin_def)
  have i: "inj_on (bfsPlacement st1) {x \<in> {1..m}. bfsPlacement st1 x \<noteq> \<lparr>row = 0, col = 100\<rparr>}"
    using pf unfolding F sx by blast
  have "\<forall>x \<in> set (bfsQueue st1). set (adj x) \<subseteq> bfsVisited st1"
    unfolding q sx v by (auto simp: adj)
  from bfsLoop_drain [OF perm this]
  have "bfsLoop srt adj out dirs mc st1 = Some (st1\<lparr>bfsQueue := []\<rparr>)" .
  moreover have "bfsQueue st0 = [0]" by (simp add: st0_def)
  ultimately have "bfsLoop srt adj out dirs mc st0 = Some (st1\<lparr>bfsQueue := []\<rparr>)"
    by (subst bfsLoop.simps) (simp add: step)
  then show ?thesis
    unfolding st0_def origin_def using v p i by auto
qed

lemma star_crowd:
  fixes m :: nat and pl0 pl :: "nat \<Rightarrow> gridCell"
  assumes m: "1832 \<le> m"
    and vis: "\<forall>x \<in> {1..m}. pl0 x = \<lparr>row = 0, col = 100\<rparr> \<or>
                 (\<bar>row (pl0 x) - 0\<bar> \<le> 20 \<and> \<bar>col (pl0 x) - 0\<bar> \<le> 20)"
    and inj: "inj_on pl0 {x \<in> {1..m}. pl0 x \<noteq> \<lparr>row = 0, col = 100\<rparr>}"
    and mv: "\<And>k. 30 \<le> k \<Longrightarrow> \<bar>row (pl k) - row (pl0 k)\<bar> \<le> 5 \<and> \<bar>col (pl k) - col (pl0 k)\<bar> \<le> 5"
  shows "\<exists>i j. i < j \<and> j \<le> m \<and> pl i = pl j"
proof -
  let ?F = "\<lparr>row = 0, col = 100\<rparr> :: gridCell"
  define B where "B = {x \<in> {1..m}. pl0 x \<noteq> ?F}"
  define T where "T = {x \<in> {30..m}. pl0 x = ?F}"
  let ?box20 = "{c :: gridCell. \<bar>row c - 0\<bar> \<le> 20 \<and> \<bar>col c - 0\<bar> \<le> 20}"
  let ?box5 = "{c :: gridCell. \<bar>row c - 0\<bar> \<le> 5 \<and> \<bar>col c - 100\<bar> \<le> 5}"
  have fB: "finite B" and fT: "finite T" by (simp_all add: B_def T_def)
  have f20: "finite ?box20" by (rule box_card(1)) simp
  have f5: "finite ?box5" by (rule box_card(1)) simp
  have "pl0 ` B \<subseteq> ?box20" using vis by (auto simp: B_def)
  then have "card (pl0 ` B) \<le> card ?box20"
    by (rule card_mono [OF f20])
  also have "card ?box20 \<le> 1681" using box_card(2) [of 20 0 0] by simp
  finally have "card (pl0 ` B) \<le> 1681" .
  moreover have "card (pl0 ` B) = card B"
    by (rule card_image) (use inj in \<open>simp add: B_def\<close>)
  ultimately have cB: "card B \<le> 1681" by simp
  have "{30..m} \<subseteq> T \<union> B" by (auto simp: T_def B_def)
  then have "card {30..m} \<le> card (T \<union> B)" by (rule card_mono [rotated]) (simp add: fB fT)
  also have "\<dots> \<le> card T + card B" by (rule card_Un_le)
  finally have cT: "122 \<le> card T" using cB m by simp
  have "pl ` T \<subseteq> ?box5"
  proof
    fix c assume "c \<in> pl ` T"
    then obtain k where k: "30 \<le> k" "pl0 k = ?F" and c: "c = pl k" by (auto simp: T_def)
    from mv [OF k(1)] show "c \<in> ?box5" unfolding c k(2) by simp
  qed
  then have "card (pl ` T) \<le> card ?box5"
    by (rule card_mono [OF f5])
  also have "card ?box5 \<le> 121" using box_card(2) [of 5 0 100] by simp
  finally have "card (pl ` T) < card T" using cT by simp
  then have "\<not> inj_on pl T" using card_image [of pl T] by auto
  then obtain i j where ij: "i \<in> T" "j \<in> T" "i \<noteq> j" "pl i = pl j"
    by (auto simp: inj_on_def)
  then have im: "i \<le> m" and jm: "j \<le> m" by (simp_all add: T_def)
  show ?thesis
  proof (cases "i < j")
    case True
    with ij jm show ?thesis by blast
  next
    case False
    with ij have "j < i" by simp
    with ij im show ?thesis by metis
  qed
qed

lemma gridPlacement_Some:
  assumes n: "n = length (RootChildren g)" "n \<noteq> 0"
    and bfs: "bfsLoop srt (fst (buildAdj g)) (snd (buildAdj g)) (bfsDirs g) (maxColsOf n)
                \<lparr>bfsPlacement = (\<lambda>i. \<lparr>row = 0, col = 0\<rparr>)(bfsStart n (fst (buildAdj g)) := \<lparr>row = 0, col = 0\<rparr>),
                 bfsOccupied = {\<lparr>row = 0, col = 0\<rparr>},
                 bfsVisited = {bfsStart n (fst (buildAdj g))},
                 bfsQueue = [bfsStart n (fst (buildAdj g))]\<rparr> = Some st"
    and pl: "pl = fst (localImprove n (fst (buildAdj g)) 5
                        (bfsPlacement (fold placeDisconnected [0..<n] st),
                         bfsOccupied (fold placeDisconnected [0..<n] st)))"
  shows "\<exists>gi minRow minCol. gridPlacement srt g = Some gi \<and>
           placement gi = (\<lambda>i. if i < n then Some \<lparr>row = row (pl i) - minRow, col = col (pl i) - minCol\<rparr>
                                else None)"
  using n(2) unfolding gridPlacement_def Let_def n(1) [symmetric] bfs pl
  by simp (intro exI, rule refl)

lemma gridPlacement_star:
  assumes perm: "\<And>lt xs. mset (srt lt xs) = mset xs"
    and m: "1832 \<le> m"
  shows "\<exists>gi. gridPlacement srt (starGraph m) = Some gi \<and>
          (\<exists>i j. i < j \<and> j \<le> m \<and> placement gi i \<noteq> None \<and> placement gi i = placement gi j)"
proof -
  define g where "g = starGraph m"
  define adj where "adj = (\<lambda>i::nat. if i = 0 then [1..<m + 1] else if i \<le> m then [0] else [])"
  define out where "out = (\<lambda>i::nat. if i = 0 then {1..m} else {})"
  have ba: "buildAdj g = (adj, out)" unfolding g_def adj_def out_def by (rule star_buildAdj)
  have n: "m + 1 = length (RootChildren g)" by (simp add: g_def starGraph_def)
  have "length (adj i) \<le> length (adj 0)" for i using m by (simp add: adj_def)
  then have start: "bfsStart (m + 1) adj = 0" by (rule bfsStart_zero)
  from star_bfs [where srt = srt and out = out and mc = "maxColsOf (m + 1)",
         OF perm adj_def bfsDirs_unit [of g]]
  obtain st where
    bfs: "bfsLoop srt adj out (bfsDirs g) (maxColsOf (m + 1))
                 \<lparr>bfsPlacement = (\<lambda>i. \<lparr>row = 0, col = 0\<rparr>)(0 := \<lparr>row = 0, col = 0\<rparr>),
                  bfsOccupied = {\<lparr>row = 0, col = 0\<rparr>}, bfsVisited = {0}, bfsQueue = [0]\<rparr> = Some st"
    and v: "bfsVisited st = {0..m}"
    and p: "\<forall>x \<in> {1..m}. bfsPlacement st x = \<lparr>row = 0, col = 100\<rparr> \<or>
                 (\<bar>row (bfsPlacement st x) - 0\<bar> \<le> 20 \<and> \<bar>col (bfsPlacement st x) - 0\<bar> \<le> 20)"
    and i: "inj_on (bfsPlacement st) {x \<in> {1..m}. bfsPlacement st x \<noteq> \<lparr>row = 0, col = 100\<rparr>}"
    by blast
  have d: "fold placeDisconnected [0..<m + 1] st = st"
    by (rule placeDisconnected_visited) (auto simp: v)
  define pl where "pl = fst (localImprove (m + 1) adj 5 (bfsPlacement st, bfsOccupied st))"
  have mv: "\<bar>row (pl k) - row (bfsPlacement st k)\<bar> \<le> 5 \<and> \<bar>col (pl k) - col (bfsPlacement st k)\<bar> \<le> 5"
    if "30 \<le> k" for k
    using localImprove_bound [OF that, of "m + 1" adj "(bfsPlacement st, bfsOccupied st)"]
    by (simp add: pl_def)
  from star_crowd [OF m p i mv] obtain a b where ab: "a < b" "b \<le> m" "pl a = pl b" by blast
  have "\<exists>gi minRow minCol. gridPlacement srt g = Some gi \<and>
           placement gi = (\<lambda>i. if i < m + 1 then Some \<lparr>row = row (pl i) - minRow, col = col (pl i) - minCol\<rparr>
                                else None)"
  proof (rule gridPlacement_Some [OF n])
    show "m + 1 \<noteq> 0" by simp
    show "bfsLoop srt (fst (buildAdj g)) (snd (buildAdj g)) (bfsDirs g) (maxColsOf (m + 1))
            \<lparr>bfsPlacement = (\<lambda>i. \<lparr>row = 0, col = 0\<rparr>)(bfsStart (m + 1) (fst (buildAdj g)) := \<lparr>row = 0, col = 0\<rparr>),
             bfsOccupied = {\<lparr>row = 0, col = 0\<rparr>},
             bfsVisited = {bfsStart (m + 1) (fst (buildAdj g))},
             bfsQueue = [bfsStart (m + 1) (fst (buildAdj g))]\<rparr> = Some st"
      unfolding ba fst_conv snd_conv start by (rule bfs)
    show "pl = fst (localImprove (m + 1) (fst (buildAdj g)) 5
                        (bfsPlacement (fold placeDisconnected [0..<m + 1] st),
                         bfsOccupied (fold placeDisconnected [0..<m + 1] st)))"
      unfolding d ba fst_conv by (rule pl_def)
  qed
  then obtain gi minRow minCol where gi: "gridPlacement srt g = Some gi"
    and pg: "placement gi = (\<lambda>i. if i < m + 1 then Some \<lparr>row = row (pl i) - minRow, col = col (pl i) - minCol\<rparr>
                                else None)"
    by blast
  from ab have "placement gi a \<noteq> None \<and> placement gi a = placement gi b"
    by (simp add: pg)
  with ab gi show ?thesis unfolding g_def by blast
qed

text \<open>
  Claim C5 fails on the code. When every cell that \<^verbatim>\<open>findBestCell\<close> tries is taken, it
  returns the cell 100 columns right of the centre without looking it up in
  \<^verbatim>\<open>occupied\<close>, and \<^verbatim>\<open>localImprove\<close> moves a node of index 30 or more by at most five
  cells. For a hub with an edge to each of 2000 other nodes, \<^verbatim>\<open>gridPlacement\<close> returns
  a grid in which two different nodes have the same cell, and in which the map from
  cells to nodes does not give back some node at the cell of that node.
\<close>

theorem gridPlacement_star_collision:
  "\<exists>gi. gridPlacement insertionSort (starGraph 2000) = Some gi \<and>
     (\<exists>i j. i < j \<and> j \<le> 2000 \<and> placement gi i \<noteq> None \<and> placement gi i = placement gi j) \<and>
     (\<exists>i c. i \<le> 2000 \<and> placement gi i = Some c \<and> occupied gi c \<noteq> Some i)"
proof -
  have "(1832::nat) \<le> 2000" by simp
  from gridPlacement_star [of insertionSort 2000, OF mset_insertionSort this]
  obtain gi i j where gi: "gridPlacement insertionSort (starGraph 2000) = Some gi"
    and ij: "i < j" "j \<le> 2000" "placement gi i \<noteq> None" "placement gi i = placement gi j"
    by blast
  from ij(3) obtain c where c: "placement gi i = Some c" by blast
  have "occupied gi c \<noteq> Some i \<or> occupied gi c \<noteq> Some j" using ij(1) by auto
  then have "\<exists>k c. k \<le> 2000 \<and> placement gi k = Some c \<and> occupied gi c \<noteq> Some k"
    using c ij by (metis less_imp_le_nat le_trans)
  with gi ij show ?thesis by blast
qed


end
